(* ===== verification/Prelude.thy ===== *)
theory Prelude
  imports Main "HOL-Library.Char_ord" "HOL-Library.List_Lexorder" "HOL-Library.Sublist"
begin

text \<open>
  Shared vocabulary of the development: byte strings, the theorem collections the component
  theories fill, and generic facts on lists that several components use.

  A Go \<open>string\<close> or \<open>[]byte\<close> is a list of bytes, here a \<open>char list\<close>
  (a \<open>char\<close> of HOL is exactly eight bits); \<open>len\<close> is \<open>length\<close>. A function
  that returns \<open>(T, error)\<close> returns a sum: \<open>Inl\<close> the error, \<open>Inr\<close> the value.
\<close>

named_theorems url_eval "definitions that evaluate the URL operations on a concrete text"
named_theorems json_eval "definitions that evaluate the JSON encoder on a concrete value"

section \<open>Bytes and strings\<close>

abbreviation byte :: "char \<Rightarrow> nat" where
  "byte c \<equiv> of_char c"

lemma byte_less [simp]: "byte c < 256"
  by (metis char_of_char nat_of_char_less_256)

lemma byte_eq_iff [simp]: "byte a = byte b \<longleftrightarrow> a = b"
  by (simp add: of_char_eq_iff)

lemma byte_div [simp]: "byte c div 4 < 64" "byte c div 16 < 16" "byte c div 64 < 4"
  by (rule less_mult_imp_div_less; simp)+

section \<open>Lists\<close>

lemma list_all_set: "list_all P xs \<longleftrightarrow> (\<forall>x \<in> set xs. P x)"
  by (simp add: list_all_iff)

lemma distinct_map_sort_key [simp]: "distinct (map f (sort_key f xs)) = distinct (map f xs)"
  by (induction xs) (simp_all add: distinct_insort_key)

end
