(* ===== verification/GoText.thy ===== *)
theory GoText
  imports Prelude
begin

text \<open>
  The text operations of Go's standard library that the program calls, on byte strings:
  UTF-8 decoding as \<open>range\<close> over a string does it (\<open>runes\<close>), encoding, the white space
  of \<open>strings.TrimSpace\<close>, \<open>Split\<close>, \<open>Join\<close>, \<open>TrimRight\<close>, \<open>ContainsAny\<close>,
  \<open>EqualFold\<close> against an ASCII name, and decimal numbers (\<open>strconv\<close>).
\<close>

section \<open>UTF-8\<close>

definition rune_error :: nat where
  "rune_error = 0xFFFD"

text \<open>
  First byte of a multi-byte sequence: the length of the sequence and the range its
  second byte must lie in (the table \<open>first\<close>/\<open>acceptRanges\<close> of \<open>unicode/utf8\<close>).
\<close>

definition lead_info :: "nat \<Rightarrow> (nat \<times> nat \<times> nat) option" where
  "lead_info b =
     (if 0xC2 \<le> b \<and> b \<le> 0xDF then Some (2, 0x80, 0xBF)
      else if b = 0xE0 then Some (3, 0xA0, 0xBF)
      else if b = 0xED then Some (3, 0x80, 0x9F)
      else if 0xE1 \<le> b \<and> b \<le> 0xEF then Some (3, 0x80, 0xBF)
      else if b = 0xF0 then Some (4, 0x90, 0xBF)
      else if b = 0xF4 then Some (4, 0x80, 0x8F)
      else if 0xF1 \<le> b \<and> b \<le> 0xF3 then Some (4, 0x80, 0xBF)
      else None)"

definition cont_byte :: "char \<Rightarrow> bool" where
  "cont_byte c \<longleftrightarrow> 0x80 \<le> byte c \<and> byte c \<le> 0xBF"

text \<open>\<open>utf8.DecodeRuneInString\<close>: the rune and the number of bytes it takes.\<close>

abbreviation bad_rune :: "nat \<times> nat" where
  "bad_rune \<equiv> (rune_error, 1)"

fun decode_rune :: "string \<Rightarrow> nat \<times> nat" where
  "decode_rune [] = (rune_error, 0)"
| "decode_rune (a # s) =
     (if byte a < 0x80 then (byte a, 1)
      else case lead_info (byte a) of
        None \<Rightarrow> bad_rune
      | Some (n, lo, hi) \<Rightarrow>
        (case s of
          [] \<Rightarrow> bad_rune
        | b # s1 \<Rightarrow>
          if byte b < lo \<or> hi < byte b then bad_rune
          else if n = 2 then ((byte a mod 0x20) * 0x40 + byte b mod 0x40, 2)
          else (case s1 of
            [] \<Rightarrow> bad_rune
          | c # s2 \<Rightarrow>
            if \<not> cont_byte c then bad_rune
            else if n = 3
              then ((byte a mod 0x10) * 0x1000 + (byte b mod 0x40) * 0x40 + byte c mod 0x40, 3)
            else (case s2 of
              [] \<Rightarrow> bad_rune
            | d # s3 \<Rightarrow>
              if \<not> cont_byte d then bad_rune
              else ((byte a mod 8) * 0x40000 + (byte b mod 0x40) * 0x1000
                      + (byte c mod 0x40) * 0x40 + byte d mod 0x40, 4)))))"

declare decode_rune.simps(2) [simp del]

lemma lead_info_length: "lead_info b = Some (n, lo, hi) \<Longrightarrow> n = 2 \<or> n = 3 \<or> n = 4"
  by (auto simp: lead_info_def split: if_splits)

lemma decode_rune_ascii [simp]: "byte a < 0x80 \<Longrightarrow> decode_rune (a # s) = (byte a, 1)"
  by (simp add: decode_rune.simps)

lemma decode_rune_size:
  assumes "s \<noteq> []"
  shows "0 < snd (decode_rune s)" and "snd (decode_rune s) \<le> length s"
  using assms
  by (cases s; auto simp: decode_rune.simps split: option.splits list.splits)+

text \<open>
  A string cut into the pieces \<open>range\<close> visits: each rune with the bytes it was read from.
\<close>

function segs :: "string \<Rightarrow> (nat \<times> string) list" where
  "segs s = (if s = [] then []
             else (fst (decode_rune s), take (snd (decode_rune s)) s)
                    # segs (drop (snd (decode_rune s)) s))"
  by pat_completeness auto
termination
  by (relation "measure length") (auto simp: decode_rune_size)

declare segs.simps [simp del]

definition runes :: "string \<Rightarrow> nat list" where
  "runes s = map fst (segs s)"

lemma segs_Nil [simp]: "segs [] = []"
  by (simp add: segs.simps)

lemma segs_ascii [simp]: "byte a < 0x80 \<Longrightarrow> segs (a # s) = (byte a, [a]) # segs s"
  by (subst segs.simps) simp

lemma concat_segs: "concat (map snd (segs s)) = s"
  by (induction s rule: segs.induct) (subst segs.simps, auto)

lemma runes_simps [simp]:
  "runes [] = []" "byte a < 0x80 \<Longrightarrow> runes (a # s) = byte a # runes s"
  by (simp_all add: runes_def)

text \<open>The four shapes of a rune that is not an error, with the arithmetic of its bytes.\<close>

definition valid_seg :: "nat \<Rightarrow> string \<Rightarrow> bool" where
  "valid_seg r b \<longleftrightarrow> b \<noteq> [] \<and> decode_rune b = (r, length b) \<and> \<not> (r = rune_error \<and> length b = 1)"

lemma decode_rune_two:
  assumes "lead_info (byte a) = Some (2, lo, hi)" and "lo \<le> byte b" and "byte b \<le> hi"
    and "\<not> byte a < 0x80"
  shows "decode_rune (a # b # t) = ((byte a mod 0x20) * 0x40 + byte b mod 0x40, 2)"
  using assms by (simp add: decode_rune.simps)

lemma decode_rune_three:
  assumes "lead_info (byte a) = Some (3, lo, hi)" and "lo \<le> byte b" and "byte b \<le> hi"
    and "cont_byte c" and "\<not> byte a < 0x80"
  shows "decode_rune (a # b # c # t) =
    ((byte a mod 0x10) * 0x1000 + (byte b mod 0x40) * 0x40 + byte c mod 0x40, 3)"
  using assms by (simp add: decode_rune.simps)

lemma decode_rune_four:
  assumes "lead_info (byte a) = Some (4, lo, hi)" and "lo \<le> byte b" and "byte b \<le> hi"
    and "cont_byte c" and "cont_byte d" and "\<not> byte a < 0x80"
  shows "decode_rune (a # b # c # d # t) =
    ((byte a mod 8) * 0x40000 + (byte b mod 0x40) * 0x1000 + (byte c mod 0x40) * 0x40
       + byte d mod 0x40, 4)"
  using assms by (simp add: decode_rune.simps)

lemma decode_rune_cases:
  assumes "decode_rune s = (r, n)" and "s \<noteq> []" and "\<not> (r = rune_error \<and> n = 1)"
  obtains (one) a t where "s = a # t" "byte a < 0x80" "r = byte a" "n = 1"
  | (two) a b t lo hi where "s = a # b # t" "lead_info (byte a) = Some (2, lo, hi)"
      "lo \<le> byte b" "byte b \<le> hi" "\<not> byte a < 0x80" "n = 2"
      "r = (byte a mod 0x20) * 0x40 + byte b mod 0x40"
  | (three) a b c t lo hi where "s = a # b # c # t" "lead_info (byte a) = Some (3, lo, hi)"
      "lo \<le> byte b" "byte b \<le> hi" "cont_byte c" "\<not> byte a < 0x80" "n = 3"
      "r = (byte a mod 0x10) * 0x1000 + (byte b mod 0x40) * 0x40 + byte c mod 0x40"
  | (four) a b c d t lo hi where "s = a # b # c # d # t"
      "lead_info (byte a) = Some (4, lo, hi)"
      "lo \<le> byte b" "byte b \<le> hi" "cont_byte c" "cont_byte d" "\<not> byte a < 0x80" "n = 4"
      "r = (byte a mod 8) * 0x40000 + (byte b mod 0x40) * 0x1000 + (byte c mod 0x40) * 0x40
         + byte d mod 0x40"
proof -
  obtain a t where s: "s = a # t" using assms(2) by (cases s) auto
  show thesis
  proof (cases "byte a < 0x80")
    case True
    then show ?thesis using one [of a t] assms(1) s by simp
  next
    case False
    then obtain k lo hi where l: "lead_info (byte a) = Some (k, lo, hi)"
      using assms by (auto simp: s decode_rune.simps split: option.splits)
    obtain b t1 where t: "t = b # t1" and b: "lo \<le> byte b" "byte b \<le> hi"
      using assms False l by (auto simp: s decode_rune.simps split: list.splits if_splits)
    show ?thesis
    proof (cases "k = 2")
      case True
      then show ?thesis using two [of a b t1 lo hi] assms(1) s t l b False
        by (simp add: decode_rune_two)
    next
      case k2: False
      obtain c t2 where t1: "t1 = c # t2" and c: "cont_byte c"
        using assms False l k2 b
        by (cases t1) (auto simp: s t decode_rune.simps split: if_splits)
      show ?thesis
      proof (cases "k = 3")
        case True
        then show ?thesis using three [of a b c t2 lo hi] assms(1) s t t1 l b c False
          by (simp add: decode_rune_three)
      next
        case k3: False
        then have k4: "k = 4" using lead_info_length [OF l] k2 by simp
        obtain d t3 where t2: "t2 = d # t3" and d: "cont_byte d"
          using assms False l k4 b c
          by (cases t2) (auto simp: s t t1 decode_rune.simps split: if_splits)
        show ?thesis using four [of a b c d t3 lo hi] assms(1) s t t1 t2 l b c d False k4
          by (simp add: decode_rune_four)
      qed
    qed
  qed
qed

lemma decode_rune_take:
  assumes "decode_rune s = (r, n)" and "s \<noteq> []" and "\<not> (r = rune_error \<and> n = 1)"
  shows "decode_rune (take n s @ t) = (r, n)"
  using assms
  by (cases rule: decode_rune_cases)
    (simp_all add: decode_rune_two decode_rune_three decode_rune_four)

lemma valid_seg_decode:
  assumes "decode_rune s = (r, n)" and "s \<noteq> []" and "\<not> (r = rune_error \<and> n = 1)"
  shows "valid_seg r (take n s)"
  using decode_rune_take [OF assms, of "[]"] decode_rune_size [OF assms(2)] assms
  by (auto simp: valid_seg_def)

lemma valid_seg_append:
  "valid_seg r b \<Longrightarrow> decode_rune (b @ t) = (r, length b)"
  using decode_rune_take [of b r "length b" t] by (auto simp: valid_seg_def)

text \<open>\<open>utf8.AppendRune\<close>: surrogates and values beyond U+10FFFF become U+FFFD.\<close>

definition encode_rune :: "nat \<Rightarrow> string" where
  "encode_rune r0 =
     (let r = (if r0 \<le> 0x10FFFF \<and> \<not> (0xD800 \<le> r0 \<and> r0 \<le> 0xDFFF) then r0 else rune_error)
      in if r < 0x80 then [char_of r]
         else if r < 0x800 then [char_of (0xC0 + r div 0x40), char_of (0x80 + r mod 0x40)]
         else if r < 0x10000
           then [char_of (0xE0 + r div 0x1000), char_of (0x80 + r div 0x40 mod 0x40),
                 char_of (0x80 + r mod 0x40)]
         else [char_of (0xF0 + r div 0x40000), char_of (0x80 + r div 0x1000 mod 0x40),
               char_of (0x80 + r div 0x40 mod 0x40), char_of (0x80 + r mod 0x40)])"

lemma char_of_eq_iff: "n < 256 \<Longrightarrow> char_of n = c \<longleftrightarrow> n = byte c"
  by (metis char_of_char of_char_of mod_less)

lemma lead_info_cases:
  assumes "lead_info b = Some (n, lo, hi)"
  obtains (two) "n = 2" "0xC2 \<le> b" "b \<le> 0xDF" "lo = 0x80" "hi = 0xBF"
  | (three) "n = 3" "0xE0 \<le> b" "b \<le> 0xEF" "0x80 \<le> lo" "hi \<le> 0xBF" "b = 0xE0 \<longrightarrow> lo = 0xA0"
      "b = 0xED \<longrightarrow> hi = 0x9F"
  | (four) "n = 4" "0xF0 \<le> b" "b \<le> 0xF4" "0x80 \<le> lo" "hi \<le> 0xBF" "b = 0xF0 \<longrightarrow> lo = 0x90"
      "b = 0xF4 \<longrightarrow> hi = 0x8F"
  using assms by (auto simp: lead_info_def split: if_splits)

lemma div_mod_parts:
  fixes x y :: nat
  assumes "y < 0x40"
  shows "(x * 0x40 + y) div 0x40 = x" and "(x * 0x40 + y) mod 0x40 = y"
  using assms by auto

lemma char_of_plus_eq: "byte c = n + x \<Longrightarrow> char_of (n + x) = c"
  by (metis char_of_char)

lemma tail64:
  fixes r :: nat
  assumes "r = 0x40 * q + z" and "z < 0x40"
  shows "r mod 0x40 = z" and "r div 0x40 = q"
  using assms by auto

lemma encode_rune_two:
  assumes "byte a = 0xC0 + x" "byte b = 0x80 + y" "2 \<le> x" "x < 0x20" "y < 0x40"
    and "r = x * 0x40 + y"
  shows "encode_rune r = [a, b]"
proof -
  have "\<not> r < 0x80" "r < 0x800" using assms by auto
  moreover have "r div 0x40 = x" "r mod 0x40 = y" using assms by auto
  ultimately show ?thesis using assms(1,2)
    by (simp add: encode_rune_def Let_def char_of_plus_eq)
qed

lemma encode_rune_three:
  assumes "byte a = 0xE0 + x" "byte b = 0x80 + y" "byte c = 0x80 + z"
    and "x < 0x10" "y < 0x40" "z < 0x40" "x = 0 \<longrightarrow> 0x20 \<le> y" "x = 0xD \<longrightarrow> y < 0x20"
    and "r = x * 0x1000 + y * 0x40 + z"
  shows "encode_rune r = [a, b, c]"
proof -
  have "\<not> r < 0x80" "\<not> r < 0x800" "r < 0x10000" using assms(4-9) by auto
  moreover have "\<not> (0xD800 \<le> r \<and> r \<le> 0xDFFF)"
  proof
    assume "0xD800 \<le> r \<and> r \<le> 0xDFFF"
    then have "x \<le> 0xD" "0xD \<le> x" using assms(4-6,9) by linarith+
    then have "x = 0xD" by simp
    moreover have "0x20 \<le> y"
      using \<open>0xD800 \<le> r \<and> r \<le> 0xDFFF\<close> \<open>x = 0xD\<close> assms(6,9) by linarith
    ultimately show False using assms(8) by simp
  qed
  moreover have "r div 0x1000 = x" using assms(4-6,9) by simp
  moreover have "r mod 0x40 = z" "r div 0x40 = x * 0x40 + y"
    using tail64 [of r "x * 0x40 + y" z] assms(6,9) by simp_all
  moreover have "(x * 0x40 + y) mod 0x40 = y" using assms(5) by simp
  ultimately show ?thesis using assms(1-3)
    by (simp add: encode_rune_def Let_def char_of_plus_eq)
qed

lemma encode_rune_four:
  assumes "byte a = 0xF0 + x" "byte b = 0x80 + y" "byte c = 0x80 + z" "byte d = 0x80 + w"
    and "x \<le> 4" "y < 0x40" "z < 0x40" "w < 0x40" "x = 0 \<longrightarrow> 0x10 \<le> y" "x = 4 \<longrightarrow> y < 0x10"
    and "r = x * 0x40000 + y * 0x1000 + z * 0x40 + w"
  shows "encode_rune r = [a, b, c, d]"
proof -
  have "\<not> r < 0x80" "\<not> r < 0x800" "\<not> r < 0x10000" "r \<le> 0x10FFFF" "\<not> r \<le> 0xDFFF"
    using assms(5-11) by auto
  moreover have "r div 0x1000 = x * 0x40 + y" "r div 0x40000 = x"
    using assms(5-8,11) by simp_all
  moreover have "r mod 0x40 = w" "r div 0x40 = x * 0x1000 + y * 0x40 + z"
    using tail64 [of r "x * 0x1000 + y * 0x40 + z" w] assms(8,11) by simp_all
  moreover have "(x * 0x1000 + y * 0x40 + z) mod 0x40 = z" "(x * 0x40 + y) mod 0x40 = y"
    using tail64(1) [of "x * 0x1000 + y * 0x40 + z" "x * 0x40 + y" z] assms(6,7) by simp_all
  ultimately show ?thesis using assms(1-4)
    by (simp add: encode_rune_def Let_def char_of_plus_eq)
qed

lemma offset_mod: "m dvd k \<Longrightarrow> x < m \<Longrightarrow> (k + x) mod m = (x :: nat)"
  by (metis dvd_imp_mod_0 add_0 mod_add_left_eq mod_less)

lemma valid_seg_encode:
  assumes "valid_seg r u"
  shows "encode_rune r = u"
proof -
  have d: "decode_rune u = (r, length u)" "u \<noteq> []" "\<not> (r = rune_error \<and> length u = 1)"
    using assms by (auto simp: valid_seg_def)
  show ?thesis using d
  proof (cases rule: decode_rune_cases)
    case (one a t)
    then show ?thesis by (simp add: encode_rune_def Let_def)
  next
    case (two a b t lo hi)
    from two(2) have l: "0xC2 \<le> byte a" "byte a \<le> 0xDF" "lo = 0x80" "hi = 0xBF"
      by (auto elim: lead_info_cases)
    define x y where xy: "x = byte a - 0xC0" "y = byte b - 0x80"
    have e: "byte a = 0xC0 + x" "byte b = 0x80 + y" "2 \<le> x" "x < 0x20" "y < 0x40"
      using xy l two(3,4) by auto
    have "(0xC0 + x) mod 0x20 = x" "(0x80 + y) mod 0x40 = y" using e by (simp_all add: offset_mod)
    with e two(7) have "r = x * 0x40 + y" by simp
    from encode_rune_two [OF e this] two(1,6) show ?thesis by simp
  next
    case (three a b c t lo hi)
    from three(2) have l: "0xE0 \<le> byte a" "byte a \<le> 0xEF" "0x80 \<le> lo" "hi \<le> 0xBF"
      "byte a = 0xE0 \<longrightarrow> lo = 0xA0" "byte a = 0xED \<longrightarrow> hi = 0x9F"
      by (auto elim: lead_info_cases)
    define x y z where xy: "x = byte a - 0xE0" "y = byte b - 0x80" "z = byte c - 0x80"
    have e: "byte a = 0xE0 + x" "byte b = 0x80 + y" "byte c = 0x80 + z"
      "x < 0x10" "y < 0x40" "z < 0x40" "x = 0 \<longrightarrow> 0x20 \<le> y" "x = 0xD \<longrightarrow> y < 0x20"
      using xy l three(3-5) by (auto simp: cont_byte_def)
    have "(0xE0 + x) mod 0x10 = x" "(0x80 + y) mod 0x40 = y" "(0x80 + z) mod 0x40 = z"
      using e by (simp_all add: offset_mod)
    with e three(8) have "r = x * 0x1000 + y * 0x40 + z" by simp
    from encode_rune_three [OF e this] three(1,7) show ?thesis by simp
  next
    case (four a b c dd t lo hi)
    from four(2) have l: "0xF0 \<le> byte a" "byte a \<le> 0xF4" "0x80 \<le> lo" "hi \<le> 0xBF"
      "byte a = 0xF0 \<longrightarrow> lo = 0x90" "byte a = 0xF4 \<longrightarrow> hi = 0x8F"
      by (auto elim: lead_info_cases)
    define x y z w where xy: "x = byte a - 0xF0" "y = byte b - 0x80" "z = byte c - 0x80"
      "w = byte dd - 0x80"
    have e: "byte a = 0xF0 + x" "byte b = 0x80 + y" "byte c = 0x80 + z" "byte dd = 0x80 + w"
      "x \<le> 4" "y < 0x40" "z < 0x40" "w < 0x40" "x = 0 \<longrightarrow> 0x10 \<le> y" "x = 4 \<longrightarrow> y < 0x10"
      using xy l four(3-6) by (auto simp: cont_byte_def)
    have "(0xF0 + x) mod 8 = x" "(0x80 + y) mod 0x40 = y" "(0x80 + z) mod 0x40 = z"
      "(0x80 + w) mod 0x40 = w"
      using e by (simp_all add: offset_mod)
    with e four(9) have "r = x * 0x40000 + y * 0x1000 + z * 0x40 + w" by simp
    from encode_rune_four [OF e this] four(1,8) show ?thesis by simp
  qed
qed

text \<open>
  \<open>valid_utf8\<close>: no byte of the string is an invalid one. \<open>sanitize\<close>: each invalid byte
  replaced by the three bytes of U+FFFD, as the JSON package does on its way in and out.
\<close>

definition bad_seg :: "nat \<times> string \<Rightarrow> bool" where
  "bad_seg p \<longleftrightarrow> fst p = rune_error \<and> length (snd p) = 1"

definition valid_utf8 :: "string \<Rightarrow> bool" where
  "valid_utf8 s \<longleftrightarrow> list_all (\<lambda>p. \<not> bad_seg p) (segs s)"

definition sanitize :: "string \<Rightarrow> string" where
  "sanitize s = concat (map encode_rune (runes s))"

lemma segs_valid_append:
  "valid_seg r b \<Longrightarrow> segs (b @ t) = (r, b) # segs t"
  by (subst segs.simps) (simp add: valid_seg_append, simp add: valid_seg_def)

lemma segs_valid: "p \<in> set (segs s) \<Longrightarrow> \<not> bad_seg p \<Longrightarrow> valid_seg (fst p) (snd p)"
proof (induction s rule: segs.induct)
  case (1 s)
  show ?case
  proof (cases "s = []")
    case True
    then show ?thesis using "1.prems" by simp
  next
    case False
    then consider "p = (fst (decode_rune s), take (snd (decode_rune s)) s)"
      | "p \<in> set (segs (drop (snd (decode_rune s)) s))"
      using "1.prems"(1) by (subst (asm) segs.simps) auto
    then show ?thesis
    proof cases
      case 1
      then have "\<not> (fst p = rune_error \<and> snd (decode_rune s) = 1)"
        using "1.prems"(2) decode_rune_size [OF False] by (auto simp: bad_seg_def)
      then show ?thesis
        using valid_seg_decode [of s "fst (decode_rune s)" "snd (decode_rune s)"] False 1 by simp
    next
      case 2
      then show ?thesis using "1.IH" False "1.prems"(2) by simp
    qed
  qed
qed

lemma segs_bad: "p \<in> set (segs s) \<Longrightarrow> bad_seg p \<Longrightarrow> fst p = rune_error"
  by (simp add: bad_seg_def)

lemma sanitize_valid:
  assumes "valid_utf8 s"
  shows "sanitize s = s"
proof -
  have "map (encode_rune \<circ> fst) (segs s) = map snd (segs s)"
    using assms by (auto simp: valid_utf8_def list_all_set dest: segs_valid [THEN valid_seg_encode])
  then show ?thesis
    using concat_segs [of s] by (simp add: sanitize_def runes_def del: map_eq_conv)
qed

lemma valid_utf8_ascii: "list_all (\<lambda>c. byte c < 0x80) s \<Longrightarrow> valid_utf8 s"
  by (induction s) (auto simp: valid_utf8_def bad_seg_def rune_error_def)

lemma valid_utf8_Nil [simp]: "valid_utf8 []"
  by (simp add: valid_utf8_def)

text \<open>A property that only admits ASCII runes can be checked byte by byte.\<close>

lemma byte_char_of: "a = char_of n \<Longrightarrow> n < 0x80 \<Longrightarrow> byte a = n"
  by simp

lemma decode_rune_high:
  assumes "\<not> byte a < 0x80"
  shows "0x80 \<le> fst (decode_rune (a # s))"
proof (cases "fst (decode_rune (a # s)) = rune_error \<and> snd (decode_rune (a # s)) = 1")
  case True
  then show ?thesis by (simp add: rune_error_def)
next
  case False
  have "\<not> fst (decode_rune (a # s)) < 0x80"
  proof
    assume lt: "fst (decode_rune (a # s)) < 0x80"
    have "valid_seg (fst (decode_rune (a # s))) (take (snd (decode_rune (a # s))) (a # s))"
      using False by (intro valid_seg_decode) auto
    then have "take (snd (decode_rune (a # s))) (a # s) = encode_rune (fst (decode_rune (a # s)))"
      by (simp add: valid_seg_encode)
    also have "\<dots> = [char_of (fst (decode_rune (a # s)))]"
      using lt by (simp add: encode_rune_def Let_def)
    finally have "a = char_of (fst (decode_rune (a # s)))"
      using decode_rune_size(1) [of "a # s"] by (cases "snd (decode_rune (a # s))") auto
    from byte_char_of [OF this] lt have "byte a = fst (decode_rune (a # s))" by (simp only:)
    with lt assms show False by simp
  qed
  then show ?thesis by simp
qed

lemma runes_all_ascii:
  assumes "\<And>r. P r \<Longrightarrow> r < 0x80"
  shows "list_all P (runes s) \<longleftrightarrow> list_all (\<lambda>c. P (byte c)) s"
proof (induction s)
  case (Cons a s)
  show ?case
  proof (cases "byte a < 0x80")
    case True
    then show ?thesis using Cons by simp
  next
    case False
    then have "\<not> P (byte a)" "\<not> P (fst (decode_rune (a # s)))"
      using assms decode_rune_high [of a s] by fastforce+
    then show ?thesis by (simp add: runes_def segs.simps [of "a # s"])
  qed
qed simp

section \<open>White space\<close>

text \<open>
  The UTF-8 encodings of the runes for which \<open>unicode.IsSpace\<close> holds. \<open>strings.TrimSpace\<close>
  removes them from both ends: a rune at the start is white space just when the string
  starts with its encoding, and \<open>DecodeLastRune\<close> gives a white space rune just when the
  string ends with its encoding.
\<close>

definition space_runes :: "nat list" where
  "space_runes = [9, 10, 11, 12, 13, 32, 0x85, 0xA0, 0x1680] @ [0x2000..<0x200B]
     @ [0x2028, 0x2029, 0x202F, 0x205F, 0x3000]"

definition space_encodings :: "string list" where
  "space_encodings = map encode_rune space_runes"

definition lead_space :: "string \<Rightarrow> string option" where
  "lead_space s = find (\<lambda>e. prefix e s) space_encodings"

definition last_space :: "string \<Rightarrow> string option" where
  "last_space s = find (\<lambda>e. suffix e s) space_encodings"

lemma encode_rune_nonempty [simp]: "encode_rune r \<noteq> []"
  by (simp add: encode_rune_def Let_def)

lemma lead_spaceD: "lead_space s = Some e \<Longrightarrow> e \<noteq> [] \<and> prefix e s"
  by (auto simp: lead_space_def space_encodings_def find_Some_iff)

lemma last_spaceD: "last_space s = Some e \<Longrightarrow> e \<noteq> [] \<and> suffix e s"
  by (auto simp: last_space_def space_encodings_def find_Some_iff)

function trim_left_space :: "string \<Rightarrow> string" where
  "trim_left_space s = (case lead_space s of
     None \<Rightarrow> s | Some e \<Rightarrow> trim_left_space (drop (length e) s))"
  by pat_completeness auto
termination
  by (relation "measure length") (auto dest!: lead_spaceD simp: prefix_def)

function trim_right_space :: "string \<Rightarrow> string" where
  "trim_right_space s = (case last_space s of
     None \<Rightarrow> s | Some e \<Rightarrow> trim_right_space (take (length s - length e) s))"
  by pat_completeness auto
termination
  by (relation "measure length") (auto dest!: last_spaceD simp: suffix_def)

declare trim_left_space.simps [simp del] trim_right_space.simps [simp del]

definition trim_space :: "string \<Rightarrow> string" where
  "trim_space s = trim_right_space (trim_left_space s)"

definition blank :: "string \<Rightarrow> bool" where
  "blank s \<longleftrightarrow> trim_space s = []"

lemma trim_left_space_head: "trim_left_space s = [] \<or> lead_space (trim_left_space s) = None"
proof (induction s rule: trim_left_space.induct)
  case (1 s)
  then show ?case
    by (cases "lead_space s") (auto simp: trim_left_space.simps [of s])
qed

lemma trim_space_Nil [simp]: "trim_space [] = []"
  by (simp add: trim_space_def trim_left_space.simps trim_right_space.simps lead_space_def
      last_space_def find_None_iff [THEN iffD2] space_encodings_def)

lemma blank_Nil [simp]: "blank []"
  by (simp add: blank_def)

lemma encode_rune_high: "0x80 \<le> r \<Longrightarrow> 0x80 \<le> byte (hd (encode_rune r))"
  by (auto simp: encode_rune_def Let_def rune_error_def)

lemma space_encoding_head: "e \<in> set space_encodings \<Longrightarrow> byte (hd e) \<le> 32 \<or> 127 \<le> byte (hd e)"
proof -
  assume "e \<in> set space_encodings"
  then obtain r where e: "e = encode_rune r" and r: "r \<le> 32 \<or> 0x80 \<le> r"
    by (auto simp: space_encodings_def space_runes_def)
  from r show ?thesis
  proof
    assume "r \<le> 32"
    then show ?thesis by (simp add: e encode_rune_def Let_def)
  next
    assume "0x80 \<le> r"
    then show ?thesis using encode_rune_high [of r] by (simp add: e)
  qed
qed

lemma trim_right_space_head:
  assumes "32 < byte (hd s)" and "byte (hd s) < 127" and "s \<noteq> []"
  shows "trim_right_space s \<noteq> []"
  using assms
proof (induction s rule: trim_right_space.induct)
  case (1 s)
  show ?case
  proof (cases "last_space s")
    case None
    then show ?thesis using "1.prems" by (simp add: trim_right_space.simps [of s])
  next
    case (Some e)
    then have e: "e \<in> set space_encodings" "e \<noteq> []" and "suffix e s"
      using last_spaceD [OF Some] by (auto simp: last_space_def find_Some_iff)
    then obtain u where u: "s = u @ e" by (auto simp: suffix_def)
    then have "u \<noteq> []" using space_encoding_head [OF e(1)] "1.prems" by auto
    then have "trim_right_space u \<noteq> []" using "1.IH" [OF Some] "1.prems" u by simp
    moreover have "trim_right_space s = trim_right_space u"
      using Some by (subst trim_right_space.simps) (simp add: u)
    ultimately show ?thesis by simp
  qed
qed

text \<open>A string that starts with a visible ASCII byte is not blank.\<close>

lemma not_blank_visible [simp]:
  assumes "32 < byte a" and "byte a < 127"
  shows "\<not> blank (a # s)"
proof -
  have "\<not> prefix e (a # s)" if e: "e \<in> set space_encodings" for e
  proof
    assume "prefix e (a # s)"
    moreover have "e \<noteq> []" using e by (auto simp: space_encodings_def)
    ultimately have "hd e = a" by (cases e) auto
    with space_encoding_head [OF e] assms show False by simp
  qed
  then have "lead_space (a # s) = None" by (simp add: lead_space_def find_None_iff)
  then show ?thesis using trim_right_space_head [of "a # s"] assms
    by (simp add: blank_def trim_space_def trim_left_space.simps)
qed

text \<open>Visible ASCII text has nothing to trim.\<close>

lemma trim_space_visible:
  assumes "\<And>c. c \<in> set s \<Longrightarrow> 32 < byte c \<and> byte c < 127"
  shows "trim_space s = s"
proof -
  have "hd e \<notin> set s" "e \<noteq> []" if "e \<in> set space_encodings" for e
    using space_encoding_head [OF that] assms [of "hd e"] that by (auto simp: space_encodings_def)
  then have "\<not> prefix e s \<and> \<not> suffix e s" if "e \<in> set space_encodings" for e
    using that by (fastforce simp: prefix_def suffix_def)
  then have "lead_space s = None" "last_space s = None"
    by (simp_all add: lead_space_def last_space_def find_None_iff)
  then show ?thesis by (simp add: trim_space_def trim_left_space.simps trim_right_space.simps)
qed

lemma not_blank_nonempty: "\<not> blank s \<Longrightarrow> s \<noteq> []"
  by auto

section \<open>Splitting, joining, trimming\<close>

text \<open>\<open>strings.Split\<close> on a one-byte separator, \<open>strings.Cut\<close>, \<open>strings.Join\<close>.\<close>

fun split_on :: "char \<Rightarrow> string \<Rightarrow> string list" where
  "split_on c [] = [[]]"
| "split_on c (x # xs) =
     (if x = c then [] # split_on c xs
      else (case split_on c xs of [] \<Rightarrow> [[x]] | y # ys \<Rightarrow> (x # y) # ys))"

fun join :: "string \<Rightarrow> string list \<Rightarrow> string" where
  "join sep [] = []"
| "join sep [x] = x"
| "join sep (x # y # ys) = x @ sep @ join sep (y # ys)"

fun cut :: "char \<Rightarrow> string \<Rightarrow> string \<times> string \<times> bool" where
  "cut c [] = ([], [], False)"
| "cut c (x # xs) =
     (if x = c then ([], xs, True)
      else (case cut c xs of (before, after, found) \<Rightarrow> (x # before, after, found)))"

definition contains_any :: "string \<Rightarrow> string \<Rightarrow> bool" where
  "contains_any s cs \<longleftrightarrow> list_ex (\<lambda>c. c \<in> set cs) s"

definition trim_right :: "string \<Rightarrow> char \<Rightarrow> string" where
  "trim_right s c = rev (dropWhile (\<lambda>x. x = c) (rev s))"

lemma split_on_nonempty [simp]: "split_on c s \<noteq> []"
  by (induction s) (auto split: list.splits)

lemma split_on_absent: "c \<notin> set s \<Longrightarrow> split_on c s = [s]"
  by (induction s) auto

lemma split_on_append: "c \<notin> set s \<Longrightarrow> split_on c (s @ c # t) = s # split_on c t"
  by (induction s) auto

lemma split_on_join:
  assumes "xs \<noteq> []" and "\<forall>x \<in> set xs. c \<notin> set x"
  shows "split_on c (join [c] xs) = xs"
  using assms by (induction "[c]" xs rule: join.induct) (auto simp: split_on_absent split_on_append)

lemma join_split_on: "join [c] (split_on c s) = s"
proof (induction s)
  case (Cons a s)
  obtain y ys where y: "split_on c s = y # ys" by (cases "split_on c s") auto
  then show ?case using Cons by (cases ys) auto
qed simp

lemma split_on_pieces: "p \<in> set (split_on c s) \<Longrightarrow> c \<notin> set p \<and> set p \<subseteq> set s"
proof (induction s arbitrary: p)
  case (Cons a s)
  obtain y ys where y: "split_on c s = y # ys" by (cases "split_on c s") auto
  show ?case using Cons.prems Cons.IH [of y] Cons.IH [of p] by (auto simp: y split: if_splits)
qed simp

lemma trim_right_last: "trim_right s c = [] \<or> last (trim_right s c) \<noteq> c"
  using hd_dropWhile [of "\<lambda>x. x = c" "rev s"]
  by (auto simp: trim_right_def last_rev)

section \<open>Case folding against an ASCII name\<close>

text \<open>
  \<open>strings.EqualFold\<close> and the name matching of \<open>encoding/json\<close>: runes are compared
  up to simple folding. The only runes outside ASCII that fold to an ASCII letter are
  U+017F (to \<open>s\<close>) and U+212A (to \<open>k\<close>), so against an ASCII name this is exact.
\<close>

definition fold_rune :: "nat \<Rightarrow> nat" where
  "fold_rune r = (if 97 \<le> r \<and> r \<le> 122 then r - 32
                  else if r = 0x17F then 83 else if r = 0x212A then 75 else r)"

definition equal_fold :: "string \<Rightarrow> string \<Rightarrow> bool" where
  "equal_fold s t \<longleftrightarrow> map fold_rune (runes s) = map fold_rune (runes t)"

lemma equal_fold_refl [simp]: "equal_fold s s"
  by (simp add: equal_fold_def)

section \<open>Decimal numbers\<close>

definition digit :: "nat \<Rightarrow> char" where
  "digit d = char_of (48 + d)"

definition is_digit :: "char \<Rightarrow> bool" where
  "is_digit c \<longleftrightarrow> 48 \<le> byte c \<and> byte c \<le> 57"

fun show_nat :: "nat \<Rightarrow> string" where
  "show_nat n = (if n < 10 then [digit n] else show_nat (n div 10) @ [digit (n mod 10)])"

declare show_nat.simps [simp del]

definition show_int :: "int \<Rightarrow> string" where
  "show_int i = (if i < 0 then CHR ''-'' # show_nat (nat (- i)) else show_nat (nat i))"

definition digits_value :: "string \<Rightarrow> nat" where
  "digits_value ds = foldl (\<lambda>n c. 10 * n + (byte c - 48)) 0 ds"

text \<open>
  \<open>strconv.ParseInt(s, 10, 64)\<close> and \<open>strconv.Atoi\<close>: an optional sign, at least one
  digit, nothing else, and the value must fit in 64 bits.
\<close>

definition parse_int :: "string \<Rightarrow> int option" where
  "parse_int s =
     (let (neg, ds) = (case s of c # t \<Rightarrow>
            if c = CHR ''-'' then (True, t) else if c = CHR ''+'' then (False, t) else (False, s)
          | [] \<Rightarrow> (False, []));
          v = (if neg then - int (digits_value ds) else int (digits_value ds))
      in if ds \<noteq> [] \<and> list_all is_digit ds \<and> - (2 ^ 63) \<le> v \<and> v < 2 ^ 63 then Some v else None)"

lemma byte_digit [simp]: "d < 10 \<Longrightarrow> byte (digit d) = 48 + d"
  by (simp add: digit_def)

lemma is_digit_digit [simp]: "d < 10 \<Longrightarrow> is_digit (digit d)"
  by (simp add: is_digit_def)

lemma digit_consts [simp]:
  "digit 0 = CHR ''0''" "digit (Suc 0) = CHR ''1''" "digit 1 = CHR ''1''" "digit 2 = CHR ''2''"
  "digit 3 = CHR ''3''" "digit 4 = CHR ''4''" "digit 5 = CHR ''5''" "digit 6 = CHR ''6''"
  "digit 7 = CHR ''7''" "digit 8 = CHR ''8''" "digit 9 = CHR ''9''"
  by (simp_all add: digit_def char_of_eq_iff)

lemma show_nat_nonempty [simp]: "show_nat n \<noteq> []"
  by (subst show_nat.simps) simp

lemma show_nat_digits: "list_all is_digit (show_nat n)"
proof (induction n rule: show_nat.induct)
  case (1 n)
  then show ?case by (subst show_nat.simps) auto
qed

lemma show_nat_length: "n < 10 ^ Suc k \<Longrightarrow> length (show_nat n) \<le> Suc k"
proof (induction k arbitrary: n)
  case 0
  then show ?case by (subst show_nat.simps) simp
next
  case (Suc k)
  then have "n div 10 < 10 ^ Suc k" by (simp add: div_less_iff_less_mult mult.commute)
  from Suc.IH [OF this] show ?case by (subst show_nat.simps) simp
qed

lemma digits_value_zeros: "digits_value (replicate k (CHR ''0'') @ ds) = digits_value ds"
  by (induction k) (simp_all add: digits_value_def)

lemma digits_value_show_nat [simp]: "digits_value (show_nat n) = n"
proof (induction n rule: show_nat.induct)
  case (1 n)
  then show ?case by (subst show_nat.simps) (auto simp: digits_value_def)
qed

lemma is_digit_not_sign: "is_digit c \<Longrightarrow> c \<noteq> CHR ''-'' \<and> c \<noteq> CHR ''+''"
  by (auto simp: is_digit_def)

lemma parse_int_show_int:
  assumes "- (2 ^ 63) \<le> i" and "i < 2 ^ 63"
  shows "parse_int (show_int i) = Some i"
proof (cases "i < 0")
  case True
  then show ?thesis using assms
    by (simp add: show_int_def parse_int_def show_nat_digits)
next
  case False
  obtain c t where s: "show_nat (nat i) = c # t" by (cases "show_nat (nat i)") auto
  then have "is_digit c" using show_nat_digits [of "nat i"] by simp
  then show ?thesis using False assms digits_value_show_nat [of "nat i"] s
      show_nat_digits [of "nat i"]
    by (auto simp: show_int_def parse_int_def dest: is_digit_not_sign)
qed

end
