(* ===== verification/Types.thy ===== *)
theory Types
  imports GoText
begin

text \<open>
  \<open>provider/types.go\<close>: the fixed error values, the transaction binding, the requests and
  the result of authentication; and the error a challenge verifier supplied by the
  deployment may return, of which the provider only inspects whether it wraps one of the
  two context errors.
\<close>

datatype provider_error =
  ErrInvalidRequest | ErrChallengeFailed | ErrSubjectDenied | ErrUnavailable
| ErrContextInvalid | ErrContextExpired

fun error_text :: "provider_error \<Rightarrow> string" where
  "error_text ErrInvalidRequest = ''registry_auth_invalid_request''"
| "error_text ErrChallengeFailed = ''registry_auth_challenge_failed''"
| "error_text ErrSubjectDenied = ''registry_auth_subject_denied''"
| "error_text ErrUnavailable = ''registry_auth_unavailable''"
| "error_text ErrContextInvalid = ''registry_auth_context_invalid''"
| "error_text ErrContextExpired = ''registry_auth_context_expired''"

text \<open>\<open>context.Context.Err\<close>.\<close>

datatype ctx_error = Canceled | DeadlineExceeded

text \<open>Any Go error as far as \<open>errors.Is\<close> distinguishes it here.\<close>

datatype go_error = CtxErr ctx_error | ProviderErr provider_error | OtherErr string

record Binding =
  RelyingPartyID :: string
  ClientID :: string
  TransactionID :: string

record ChallengeRequest =
  cr_Identifier :: string
  cr_IdentifierType :: string
  cr_Challenge :: string
  cr_Binding :: Binding

record OTPRequest =
  otp_Identifier :: string
  otp_IdentifierType :: string
  otp_Binding :: Binding
  otp_Channels :: "string list"

record 'c AuthenticationResult =
  ar_Subject :: string
  ar_Context :: 'c

text \<open>\<open>validText\<close> and \<open>validBinding\<close> of \<open>provider/provider.go\<close>, used on every request.\<close>

definition validText :: "string \<Rightarrow> bool" where
  "validText s \<longleftrightarrow> \<not> blank s \<and> length s \<le> 4096"

definition validBinding :: "Binding \<Rightarrow> bool" where
  "validBinding b \<longleftrightarrow> validText (RelyingPartyID b) \<and> validText (ClientID b) \<and> validText (TransactionID b)"

lemma validText_nonempty: "validText s \<Longrightarrow> s \<noteq> []"
  by (auto simp: validText_def)

lemma error_text_inj: "error_text e = error_text e' \<Longrightarrow> e = e'"
  by (cases e; cases e') simp_all

end
