(* ===== verification/GoNet.thy ===== *)
theory GoNet
  imports GoText
begin

text \<open>
  \<open>net/url\<close> and the parts of \<open>net\<close> the program calls: \<open>url.Parse\<close> with every error it
  can give, \<open>URL.String\<close>, \<open>PathEscape\<close>, \<open>QueryEscape\<close> and \<open>Values.Encode\<close>,
  \<open>net.SplitHostPort\<close>, \<open>net.ParseIP\<close> and \<open>IP.IsLoopback\<close>.
\<close>

section \<open>IP addresses\<close>

definition is_hex :: "char \<Rightarrow> bool" where
  "is_hex c \<longleftrightarrow> is_digit c \<or> (97 \<le> byte c \<and> byte c \<le> 102) \<or> (65 \<le> byte c \<and> byte c \<le> 70)"

definition unhex :: "char \<Rightarrow> nat" where
  "unhex c = (if is_digit c then byte c - 48 else if 97 \<le> byte c then byte c - 87 else byte c - 55)"

definition parse_octet :: "string \<Rightarrow> nat option" where
  "parse_octet s =
     (if s = [] \<or> \<not> list_all is_digit s \<or> 1 < length s \<and> hd s = CHR ''0'' \<or> 255 < digits_value s
      then None else Some (digits_value s))"

definition parse_ipv4 :: "string \<Rightarrow> nat list option" where
  "parse_ipv4 s = (case map parse_octet (split_on (CHR ''.'') s) of
     [Some a, Some b, Some c, Some d] \<Rightarrow> Some [a, b, c, d] | _ \<Rightarrow> None)"

text \<open>
  The group loop of \<open>netip.ParseAddr\<close>: groups left, bytes read so far, position of the
  ellipsis, input left.
\<close>

fun ipv6_groups :: "nat \<Rightarrow> nat list \<Rightarrow> nat option \<Rightarrow> string
    \<Rightarrow> (nat list \<times> nat option \<times> string) option" where
  "ipv6_groups 0 ip e s = Some (ip, e, s)"
| "ipv6_groups (Suc n) ip e s =
     (let ds = takeWhile is_hex s; rest = dropWhile is_hex s;
          acc = foldl (\<lambda>v c. 16 * v + unhex c) 0 ds;
          ip' = ip @ [acc div 256, acc mod 256]
      in if ds = [] \<or> 4 < length ds then None
         else (case rest of
           [] \<Rightarrow> Some (ip', e, [])
         | r # u \<Rightarrow>
             if r = CHR ''.'' then
               (if e = None \<and> length ip \<noteq> 12 \<or> 12 < length ip then None
                else map_option (\<lambda>fs. (ip @ fs, e, [])) (parse_ipv4 s))
             else if r \<noteq> CHR '':'' then None
             else (case u of
               [] \<Rightarrow> None
             | c # v \<Rightarrow>
                 if c = CHR '':'' then
                   (if e \<noteq> None then None
                    else if v = [] then Some (ip', Some (length ip'), [])
                    else ipv6_groups n ip' (Some (length ip')) v)
                 else ipv6_groups n ip' e u)))"

definition expand_ellipsis :: "nat list \<Rightarrow> nat option \<Rightarrow> nat list option" where
  "expand_ellipsis ip e = (case e of
     None \<Rightarrow> if length ip < 16 then None else Some ip
   | Some k \<Rightarrow> if length ip < 16
               then Some (take k ip @ replicate (16 - length ip) 0 @ drop k ip) else None)"

text \<open>The address of a literal without zone: sixteen bytes.\<close>

definition parse_ipv6 :: "string \<Rightarrow> nat list option" where
  "parse_ipv6 s =
     (if s = ''::'' then Some (replicate 16 0)
      else (let (e, t) = (if prefix ''::'' s then (Some 0, drop 2 s) else (None, s))
            in case ipv6_groups 8 [] e t of
                 None \<Rightarrow> None
               | Some (ip, e', rest) \<Rightarrow> if rest \<noteq> [] then None else expand_ellipsis ip e'))"

datatype ip_addr = IPv4 "nat list" | IPv6 "nat list"

text \<open>\<open>netip.ParseAddr\<close>: the first of \<open>.\<close>, \<open>:\<close> and \<open>%\<close> decides the family.\<close>

definition parse_addr :: "string \<Rightarrow> (ip_addr \<times> string) option" where
  "parse_addr s = (case dropWhile (\<lambda>c. c \<notin> set ''.:%'') s of
     [] \<Rightarrow> None
   | c # _ \<Rightarrow>
       if c = CHR ''.'' then map_option (\<lambda>a. (IPv4 a, [])) (parse_ipv4 s)
       else if c = CHR '':'' then
         (case cut (CHR ''%'') s of (a, zone, found) \<Rightarrow>
            if found \<and> zone = [] then None
            else map_option (\<lambda>b. (IPv6 b, zone)) (parse_ipv6 a))
       else None)"

text \<open>\<open>net.ParseIP\<close> refuses zones and gives sixteen bytes, an IPv4 address mapped.\<close>

definition parse_ip :: "string \<Rightarrow> nat list option" where
  "parse_ip s = (case parse_addr s of
     None \<Rightarrow> None
   | Some (IPv4 a, _) \<Rightarrow> Some (replicate 10 0 @ [255, 255] @ a)
   | Some (IPv6 b, zone) \<Rightarrow> if zone = [] then Some b else None)"

definition is_loopback :: "nat list \<Rightarrow> bool" where
  "is_loopback ip \<longleftrightarrow>
     (if take 12 ip = replicate 10 0 @ [255, 255] then ip ! 12 = 127
      else ip = replicate 15 0 @ [1])"

section \<open>Host and port\<close>

definition last_index :: "char \<Rightarrow> string \<Rightarrow> nat option" where
  "last_index c s = (if c \<in> set s
     then Some (length s - 1 - length (takeWhile (\<lambda>x. x \<noteq> c) (rev s))) else None)"

definition first_index :: "char \<Rightarrow> string \<Rightarrow> nat option" where
  "first_index c s = (if c \<in> set s then Some (length (takeWhile (\<lambda>x. x \<noteq> c) s)) else None)"

definition split_host_port :: "string \<Rightarrow> (string \<times> string) option" where
  "split_host_port s = (case last_index (CHR '':'') s of
     None \<Rightarrow> None
   | Some i \<Rightarrow>
       if hd s = CHR ''['' then
         (case first_index (CHR '']'') s of
            None \<Rightarrow> None
          | Some e \<Rightarrow>
              if e + 1 = i \<and> CHR ''['' \<notin> set (drop 1 s) \<and> CHR '']'' \<notin> set (drop (e + 1) s)
              then Some (take (e - 1) (drop 1 s), drop (i + 1) s) else None)
       else if CHR '':'' \<in> set (take i s) \<or> CHR ''['' \<in> set s \<or> CHR '']'' \<in> set s then None
       else Some (take i s, drop (i + 1) s))"

section \<open>Percent encoding\<close>

datatype url_mode =
  EncodePath | EncodePathSegment | EncodeHost | EncodeZone | EncodeUserPassword
| EncodeQueryComponent | EncodeFragment

definition is_alnum :: "char \<Rightarrow> bool" where
  "is_alnum c \<longleftrightarrow> is_digit c \<or> (97 \<le> byte c \<and> byte c \<le> 122) \<or> (65 \<le> byte c \<and> byte c \<le> 90)"

definition should_escape :: "char \<Rightarrow> url_mode \<Rightarrow> bool" where
  "should_escape c m =
     (if is_alnum c then False
      else if m \<in> {EncodeHost, EncodeZone} \<and> (c \<in> set ''!$&()*+,;=:[]<>'' \<or> byte c = 34 \<or> byte c = 39)
        then False
      else if c \<in> set ''-_.~'' then False
      else if c \<in> set ''$&+,/:;=?@'' then
        (case m of
           EncodePath \<Rightarrow> c = CHR ''?''
         | EncodePathSegment \<Rightarrow> c \<in> set ''/;,?''
         | EncodeUserPassword \<Rightarrow> c \<in> set ''@/?:''
         | EncodeQueryComponent \<Rightarrow> True
         | EncodeFragment \<Rightarrow> False
         | _ \<Rightarrow> True)
      else if m = EncodeFragment \<and> c \<in> set ''!()*'' then False
      else True)"

definition upper_hex :: "nat \<Rightarrow> char" where
  "upper_hex n = (if n < 10 then char_of (48 + n) else char_of (55 + n))"

definition escape_byte :: "url_mode \<Rightarrow> char \<Rightarrow> string" where
  "escape_byte m c =
     (if m = EncodeQueryComponent \<and> byte c = 32 then ''+''
      else if should_escape c m
        then [CHR ''%'', upper_hex (byte c div 16), upper_hex (byte c mod 16)]
      else [c])"

definition url_escape :: "url_mode \<Rightarrow> string \<Rightarrow> string" where
  "url_escape m s = concat (map (escape_byte m) s)"

text \<open>\<open>unescape\<close>: the decoded text, or \<open>None\<close> for a malformed or forbidden escape.\<close>

fun url_unescape :: "url_mode \<Rightarrow> string \<Rightarrow> string option" where
  "url_unescape m [] = Some []"
| "url_unescape m (c # s) =
     (if c = CHR ''%'' then
        (case s of
           a # b # t \<Rightarrow>
             if \<not> is_hex a \<or> \<not> is_hex b then None
             else (let v = unhex a * 16 + unhex b in
               if m = EncodeHost \<and> unhex a < 8 \<and> v \<noteq> 37 then None
               else if m = EncodeZone \<and> v \<noteq> 37 \<and> v \<noteq> 32 \<and> should_escape (char_of v) EncodeHost
                 then None
               else map_option (Cons (char_of v)) (url_unescape m t))
         | _ \<Rightarrow> None)
      else if m \<in> {EncodeHost, EncodeZone} \<and> byte c < 0x80 \<and> should_escape c m then None
      else map_option (Cons (if c = CHR ''+'' \<and> m = EncodeQueryComponent then CHR '' '' else c))
             (url_unescape m s))"

section \<open>Parsing a URL\<close>

record url =
  Scheme :: string
  Opaque :: string
  User :: "string option"
  Host :: string
  Path :: string
  RawPath :: string
  OmitHost :: bool
  ForceQuery :: bool
  RawQuery :: string
  Fragment :: string
  RawFragment :: string

definition empty_url :: url where
  "empty_url = \<lparr>Scheme = [], Opaque = [], User = None, Host = [], Path = [], RawPath = [],
     OmitHost = False, ForceQuery = False, RawQuery = [], Fragment = [], RawFragment = []\<rparr>"

definition is_alpha :: "char \<Rightarrow> bool" where
  "is_alpha c \<longleftrightarrow> (97 \<le> byte c \<and> byte c \<le> 122) \<or> (65 \<le> byte c \<and> byte c \<le> 90)"

text \<open>\<open>getScheme\<close>: scheme and rest, \<open>None\<close> for a missing scheme (a leading colon).\<close>

definition get_scheme :: "string \<Rightarrow> (string \<times> string) option" where
  "get_scheme s =
     (let sch = takeWhile (\<lambda>c. is_alpha c \<or> is_digit c \<or> c \<in> set ''+-.'') s;
          rest = drop (length sch) s
      in if sch \<noteq> [] \<and> \<not> is_alpha (hd sch) then Some ([], s)
         else (case rest of
            c # t \<Rightarrow> if c = CHR '':'' then (if sch = [] then None else Some (sch, t))
                     else Some ([], s)
          | [] \<Rightarrow> Some ([], s)))"

definition to_lower :: "string \<Rightarrow> string" where
  "to_lower s = map (\<lambda>c. if 65 \<le> byte c \<and> byte c \<le> 90 then char_of (byte c + 32) else c) s"

definition valid_optional_port :: "string \<Rightarrow> bool" where
  "valid_optional_port p = (case p of [] \<Rightarrow> True | c # t \<Rightarrow> c = CHR '':'' \<and> list_all is_digit t)"

text \<open>Where \<open>%25\<close> first occurs.\<close>

fun zone_index :: "string \<Rightarrow> nat option" where
  "zone_index [] = None"
| "zone_index (c # s) = (if prefix ''%25'' (c # s) then Some 0 else map_option Suc (zone_index s))"

definition opt_append :: "string option \<Rightarrow> string option \<Rightarrow> string option" where
  "opt_append a b = (case a of None \<Rightarrow> None | Some x \<Rightarrow> map_option (append x) b)"

definition parse_host :: "string \<Rightarrow> string option" where
  "parse_host host = (case last_index (CHR ''['') host of
     Some (Suc _) \<Rightarrow> None
   | Some 0 \<Rightarrow>
       (case last_index (CHR '']'') host of
          None \<Rightarrow> None
        | Some e \<Rightarrow>
            let colon_port = drop (e + 1) host; name = take (e - 1) (drop 1 host);
                plain = (case zone_index name of
                   None \<Rightarrow> url_unescape EncodeHost name
                 | Some z \<Rightarrow> opt_append (url_unescape EncodeHost (take z name))
                                       (url_unescape EncodeZone (drop z name)))
            in if \<not> valid_optional_port colon_port then None
               else (case plain of
                   None \<Rightarrow> None
                 | Some h \<Rightarrow> (case parse_addr h of
                     Some (IPv6 _, _) \<Rightarrow>
                       opt_append (Some (CHR ''['' # h @ '']'')) (url_unescape EncodeHost colon_port)
                   | _ \<Rightarrow> None)))
   | None \<Rightarrow>
       (case first_index (CHR '':'') host of
          Some i \<Rightarrow> if valid_optional_port (drop i host) then url_unescape EncodeHost host else None
        | None \<Rightarrow> url_unescape EncodeHost host))"

definition valid_userinfo :: "string \<Rightarrow> bool" where
  "valid_userinfo s \<longleftrightarrow>
     list_all (\<lambda>c. is_alnum c \<or> c \<in> set ''-._:~!$&()*+,;=%@'' \<or> byte c = 39) s"

definition parse_authority :: "string \<Rightarrow> (string option \<times> string) option" where
  "parse_authority a = (case last_index (CHR ''@'') a of
     None \<Rightarrow> map_option (Pair None) (parse_host a)
   | Some i \<Rightarrow> (case parse_host (drop (i + 1) a) of
       None \<Rightarrow> None
     | Some h \<Rightarrow>
         (case cut (CHR '':'') (take i a) of (name, pw, _) \<Rightarrow>
            if valid_userinfo (take i a) \<and> url_unescape EncodeUserPassword name \<noteq> None
              \<and> url_unescape EncodeUserPassword pw \<noteq> None
            then Some (Some (take i a), h) else None)))"

definition set_path :: "string \<Rightarrow> url \<Rightarrow> url option" where
  "set_path p u = (case url_unescape EncodePath p of
     None \<Rightarrow> None
   | Some q \<Rightarrow> Some (u\<lparr>Path := q, RawPath := (if url_escape EncodePath q = p then [] else p)\<rparr>))"

definition set_fragment :: "string \<Rightarrow> url \<Rightarrow> url option" where
  "set_fragment f u = (case url_unescape EncodeFragment f of
     None \<Rightarrow> None
   | Some g \<Rightarrow> Some (u\<lparr>Fragment := g,
       RawFragment := (if url_escape EncodeFragment g = f then [] else f)\<rparr>))"

definition has_ctl :: "string \<Rightarrow> bool" where
  "has_ctl s \<longleftrightarrow> list_ex (\<lambda>c. byte c < 32 \<or> byte c = 127) s"

text \<open>The part of \<open>parse\<close> after the scheme and the query have been cut off.\<close>

definition parse_rest :: "string \<Rightarrow> url \<Rightarrow> url option" where
  "parse_rest rest u =
     (if \<not> prefix ''/'' rest \<and> Scheme u \<noteq> [] then Some (u\<lparr>Opaque := rest\<rparr>)
      else if \<not> prefix ''/'' rest \<and> CHR '':'' \<in> set (takeWhile (\<lambda>c. c \<noteq> CHR ''/'') rest) then None
      else if (Scheme u \<noteq> [] \<or> \<not> prefix ''///'' rest) \<and> prefix ''//'' rest then
        (let authority = takeWhile (\<lambda>c. c \<noteq> CHR ''/'') (drop 2 rest);
             path = dropWhile (\<lambda>c. c \<noteq> CHR ''/'') (drop 2 rest)
         in case parse_authority authority of
              None \<Rightarrow> None
            | Some (user, host) \<Rightarrow> set_path path (u\<lparr>User := user, Host := host\<rparr>))
      else set_path rest (if Scheme u \<noteq> [] \<and> prefix ''/'' rest then u\<lparr>OmitHost := True\<rparr> else u))"

definition url_parse_nofrag :: "string \<Rightarrow> url option" where
  "url_parse_nofrag s =
     (if has_ctl s then None
      else if s = ''*'' then Some (empty_url\<lparr>Path := ''*''\<rparr>)
      else (case get_scheme s of
        None \<Rightarrow> None
      | Some (sch, rest) \<Rightarrow>
          let u = empty_url\<lparr>Scheme := to_lower sch\<rparr>
          in if rest \<noteq> [] \<and> last rest = CHR ''?'' \<and> CHR ''?'' \<notin> set (butlast rest)
             then parse_rest (butlast rest) (u\<lparr>ForceQuery := True\<rparr>)
             else (case cut (CHR ''?'') rest of (path, query, _) \<Rightarrow>
               parse_rest path (u\<lparr>RawQuery := query\<rparr>))))"

definition url_parse :: "string \<Rightarrow> url option" where
  "url_parse s = (case cut (CHR ''#'') s of (u, frag, _) \<Rightarrow>
     (case url_parse_nofrag u of
        None \<Rightarrow> None
      | Some x \<Rightarrow> if frag = [] then Some x else set_fragment frag x))"

section \<open>Printing a URL\<close>

definition valid_encoded :: "url_mode \<Rightarrow> string \<Rightarrow> bool" where
  "valid_encoded m s \<longleftrightarrow>
     list_all (\<lambda>c. c \<in> set ''!$&()*+,;=:@[]%'' \<or> byte c = 39 \<or> \<not> should_escape c m) s"

definition escaped_path :: "url \<Rightarrow> string" where
  "escaped_path u =
     (if RawPath u \<noteq> [] \<and> valid_encoded EncodePath (RawPath u)
          \<and> url_unescape EncodePath (RawPath u) = Some (Path u) then RawPath u
      else if Path u = ''*'' then ''*'' else url_escape EncodePath (Path u))"

definition escaped_fragment :: "url \<Rightarrow> string" where
  "escaped_fragment u =
     (if RawFragment u \<noteq> [] \<and> valid_encoded EncodeFragment (RawFragment u)
          \<and> url_unescape EncodeFragment (RawFragment u) = Some (Fragment u) then RawFragment u
      else url_escape EncodeFragment (Fragment u))"

definition url_authority :: "url \<Rightarrow> string" where
  "url_authority u =
     (if Scheme u = [] \<and> Host u = [] \<and> User u = None then []
      else if OmitHost u \<and> Host u = [] \<and> User u = None then []
      else (if Host u \<noteq> [] \<or> Path u \<noteq> [] \<or> User u \<noteq> None then ''//'' else [])
        @ (case User u of None \<Rightarrow> [] | Some i \<Rightarrow> i @ ''@'')
        @ url_escape EncodeHost (Host u))"

definition url_string :: "url \<Rightarrow> string" where
  "url_string u =
     (let sch = (if Scheme u = [] then [] else Scheme u @ '':'');
          path = escaped_path u;
          front = sch @ url_authority u
                    @ (if path \<noteq> [] \<and> hd path \<noteq> CHR ''/'' \<and> Host u \<noteq> [] then ''/'' else []);
          dot = (if front = [] \<and> CHR '':'' \<in> set (takeWhile (\<lambda>c. c \<noteq> CHR ''/'') path)
                 then ''./'' else [])
      in (if Opaque u \<noteq> [] then sch @ Opaque u else front @ dot @ path)
         @ (if ForceQuery u \<or> RawQuery u \<noteq> [] then CHR ''?'' # RawQuery u else [])
         @ (if Fragment u \<noteq> [] then CHR ''#'' # escaped_fragment u else []))"

text \<open>\<open>Values.Encode\<close> on values with one entry per key.\<close>

definition form_encode :: "(string \<times> string) list \<Rightarrow> string" where
  "form_encode kvs = join ''&''
     (map (\<lambda>(k, v). url_escape EncodeQueryComponent k @ ''='' @ url_escape EncodeQueryComponent v)
        (sort_key fst kvs))"

lemmas url_operations [url_eval] = url_parse_def url_parse_nofrag_def cut_def has_ctl_def get_scheme_def is_alpha_def
  is_digit_def to_lower_def parse_rest_def parse_authority_def last_index_def first_index_def
  parse_host_def set_path_def empty_url_def url_escape_def escape_byte_def should_escape_def
  is_alnum_def char_of_eq_iff

end
