(* ===== verification/Config.thy ===== *)
theory Config
  imports Types GoNet
begin

text \<open>
  \<open>provider/config.go\<close>: the configuration records, their defaults, the validation with
  the field names it reports, and \<open>LoadConfig\<close> with its file and YAML steps. The YAML
  library is third-party code: its three calls are the fields of \<open>yaml_lib\<close>.
\<close>

record BREGConfig =
  BaseURL :: string
  Route :: string
  Selector :: string
  SelectorField :: string
  AccessProfile :: string
  ProvisionedFields :: "string list"
  AccountCheckFields :: "string list"

record TokenClientConfig =
  TokenEndpoint :: string
  AssertionAudience :: string
  tc_ClientID :: string
  PrivateKeyFile :: string
  KeyID :: string
  Resource :: string
  Scopes :: "string list"
  AssertionTTLSeconds :: int
  TokenCacheMaxSeconds :: int

record HTTPConfig =
  TimeoutSeconds :: int
  MaxResponseBytes :: int
  AllowInsecureHTTP :: bool
  CAFile :: string

record MailpitConfig =
  mp_Enabled :: bool
  SMTPAddress :: string
  Sender :: string
  Recipient :: string

record DemoConfig =
  StaticOTPEnabled :: bool
  StaticOTPFile :: string
  Mailpit :: MailpitConfig

record Config =
  SubjectIDType :: string
  PSUTSecretFile :: string
  BREG :: BREGConfig
  TokenClient :: TokenClientConfig
  ClaimMap :: "(string \<times> string) list"
  HTTP :: HTTPConfig
  Demo :: DemoConfig

section \<open>Defaults\<close>

definition default_breg :: "BREGConfig \<Rightarrow> BREGConfig" where
  "default_breg b = b\<lparr>
     AccountCheckFields :=
       (if AccountCheckFields b = [] then [''uin'', ''status''] else AccountCheckFields b),
     SelectorField := (if SelectorField b = [] then ''uin'' else SelectorField b)\<rparr>"

definition default_token_client :: "TokenClientConfig \<Rightarrow> TokenClientConfig" where
  "default_token_client t = t\<lparr>
     AssertionTTLSeconds := (if AssertionTTLSeconds t = 0 then 120 else AssertionTTLSeconds t),
     TokenCacheMaxSeconds := (if TokenCacheMaxSeconds t = 0 then 300 else TokenCacheMaxSeconds t)\<rparr>"

definition default_http :: "HTTPConfig \<Rightarrow> HTTPConfig" where
  "default_http h = h\<lparr>
     TimeoutSeconds := (if TimeoutSeconds h = 0 then 10 else TimeoutSeconds h),
     MaxResponseBytes := (if MaxResponseBytes h = 0 then 2 ^ 20 else MaxResponseBytes h)\<rparr>"

definition defaults :: "Config \<Rightarrow> Config" where
  "defaults c = c\<lparr>
     SubjectIDType := (if SubjectIDType c = [] then ''uin'' else SubjectIDType c),
     BREG := default_breg (BREG c),
     TokenClient := default_token_client (TokenClient c),
     HTTP := default_http (HTTP c)\<rparr>"

section \<open>Field checks\<close>

definition contains :: "string list \<Rightarrow> string \<Rightarrow> bool" where
  "contains items item \<longleftrightarrow> list_ex (\<lambda>v. v = item) items"

definition valid_field_rune :: "nat \<Rightarrow> bool" where
  "valid_field_rune r \<longleftrightarrow> (97 \<le> r \<and> r \<le> 122) \<or> (65 \<le> r \<and> r \<le> 90) \<or> (48 \<le> r \<and> r \<le> 57)
     \<or> r = 95 \<or> r = 45 \<or> r = 46"

definition validField :: "string \<Rightarrow> bool" where
  "validField s \<longleftrightarrow> s \<noteq> [] \<and> list_all valid_field_rune (runes s)"

definition validScopeToken :: "string \<Rightarrow> bool" where
  "validScopeToken scope \<longleftrightarrow> scope \<noteq> [] \<and>
     list_all (\<lambda>c. \<not> (byte c \<noteq> 0x21 \<and> (byte c < 0x23 \<or> byte c > 0x5b) \<and> (byte c < 0x5d \<or> byte c > 0x7e)))
       scope"

text \<open>The loop of \<open>validScopes\<close> with the set of the scopes seen so far.\<close>

fun scopes_ok :: "string list \<Rightarrow> string list \<Rightarrow> bool" where
  "scopes_ok seen [] = True"
| "scopes_ok seen (s # ss) =
     (if 256 < length s \<or> \<not> validScopeToken s then False
      else if s \<in> set seen then False
      else scopes_ok (s # seen) ss)"

definition validScopes :: "string list \<Rightarrow> bool" where
  "validScopes scopes \<longleftrightarrow>
     (if scopes = [] \<or> 32 < length scopes then False
      else scopes_ok [] scopes \<and> length (join '' '' scopes) \<le> 4096)"

definition parseScope :: "string \<Rightarrow> string list option" where
  "parseScope scope =
     (if scope = [] \<or> 4096 < length scope then None
      else if list_all validScopeToken (split_on (CHR '' '') scope)
        then Some (split_on (CHR '' '') scope) else None)"

definition validResource :: "string \<Rightarrow> bool" where
  "validResource r = (case url_parse r of
     None \<Rightarrow> False
   | Some u \<Rightarrow> length r \<le> 4096 \<and> Scheme u \<noteq> [] \<and> CHR ''#'' \<notin> set r \<and> User u = None)"

definition reservedClaim :: "string \<Rightarrow> bool" where
  "reservedClaim s \<longleftrightarrow> s \<in> {''iss'', ''aud'', ''exp'', ''iat'', ''nbf'', ''jti'', ''nonce'', ''auth_time'',
     ''acr'', ''amr'', ''azp'', ''at_hash'', ''c_hash'', ''sid'', ''cnf'', ''verified_claims''}"

definition validEndpoint :: "string \<Rightarrow> bool \<Rightarrow> bool" where
  "validEndpoint s insecure = (case url_parse s of
     None \<Rightarrow> False
   | Some u \<Rightarrow> Host u \<noteq> [] \<and> User u = None \<and> Fragment u = [] \<and> RawQuery u = []
       \<and> (Scheme u = ''https'' \<or> insecure \<and> Scheme u = ''http''))"

text \<open>\<open>validMailpitAddress\<close> and \<open>validMailAddress\<close> of \<open>provider/mailpit.go\<close>.\<close>

definition validMailpitAddress :: "string \<Rightarrow> bool" where
  "validMailpitAddress address = (case split_host_port address of
     None \<Rightarrow> False
   | Some (host, port) \<Rightarrow>
       if 255 < length address
          \<or> (host \<noteq> ''mailpit'' \<and> host \<noteq> ''localhost''
             \<and> (case parse_ip host of None \<Rightarrow> True | Some ip \<Rightarrow> \<not> is_loopback ip)) then False
       else (case parse_int port of None \<Rightarrow> False | Some n \<Rightarrow> 0 < n \<and> n \<le> 65535))"

definition validMailAddress :: "string \<Rightarrow> bool" where
  "validMailAddress address \<longleftrightarrow>
     (if length address < 3 \<or> 254 < length address \<or> length (filter (\<lambda>c. c = CHR ''@'') address) \<noteq> 1
         \<or> list_ex (\<lambda>c. byte c \<in> {13, 10, 60, 62, 0, 32, 9}) address then False
      else if \<not> list_all (\<lambda>r. 33 \<le> r \<and> r \<le> 126) (runes address) then False
      else (case split_on (CHR ''@'') address of
        a # b # _ \<Rightarrow> a \<noteq> [] \<and> b \<noteq> [] | _ \<Rightarrow> False))"

section \<open>Validation\<close>

definition route_ok :: "string \<Rightarrow> bool" where
  "route_ok r \<longleftrightarrow> validText r \<and> \<not> contains_any r [CHR ''/'', CHR 0x5C, CHR ''?'', CHR ''#'']
     \<and> r \<noteq> ''.'' \<and> r \<noteq> ''..''"

definition claim_ok :: "string \<Rightarrow> string \<Rightarrow> bool" where
  "claim_ok k v \<longleftrightarrow> \<not> (blank k \<or> (\<not> validField v \<and> v \<noteq> ''$psut'') \<or> k = ''sub'' \<and> v \<noteq> ''$psut''
     \<or> reservedClaim k)"

text \<open>
  The checks in the order they are made, each with the field name it reports. The three
  loops stop at the first bad entry, so each reports its field at most once.
\<close>

definition checks :: "Config \<Rightarrow> (bool \<times> string) list" where
  "checks c =
     [(validText (SubjectIDType c), ''subject_id_type''),
      (\<not> blank (PSUTSecretFile c), ''psut_secret_file''),
      (validText (tc_ClientID (TokenClient c)), ''token_client.client_id''),
      (\<not> blank (PrivateKeyFile (TokenClient c)), ''token_client.private_key_file''),
      (validText (KeyID (TokenClient c)), ''token_client.key_id''),
      (route_ok (Route (BREG c)), ''breg.route''),
      (validText (Selector (BREG c)), ''breg.selector''),
      (validField (SelectorField (BREG c)), ''breg.selector_field''),
      (validEndpoint (TokenEndpoint (TokenClient c)) (AllowInsecureHTTP (HTTP c)),
         ''token_client.token_endpoint''),
      (validEndpoint (AssertionAudience (TokenClient c)) (AllowInsecureHTTP (HTTP c)),
         ''token_client.assertion_audience''),
      (validResource (Resource (TokenClient c)), ''token_client.resource''),
      (validEndpoint (BaseURL (BREG c)) (AllowInsecureHTTP (HTTP c)), ''breg.base_url''),
      (1 \<le> AssertionTTLSeconds (TokenClient c) \<and> AssertionTTLSeconds (TokenClient c) \<le> 300,
         ''token_client.assertion_ttl_seconds''),
      (1 \<le> TokenCacheMaxSeconds (TokenClient c) \<and> TokenCacheMaxSeconds (TokenClient c) \<le> 86400,
         ''token_client.token_cache_max_seconds''),
      (validScopes (Scopes (TokenClient c)), ''token_client.scopes''),
      (1 \<le> TimeoutSeconds (HTTP c) \<and> TimeoutSeconds (HTTP c) \<le> 120, ''http.timeout_seconds''),
      (1 \<le> MaxResponseBytes (HTTP c) \<and> MaxResponseBytes (HTTP c) \<le> 16 * 2 ^ 20,
         ''http.max_response_bytes''),
      (\<not> StaticOTPEnabled (Demo c) \<or> \<not> blank (StaticOTPFile (Demo c)), ''demo.static_otp_file''),
      (\<not> StaticOTPEnabled (Demo c) \<or> \<not> mp_Enabled (Mailpit (Demo c)), ''demo.challenge_mode'')]
     @ (if mp_Enabled (Mailpit (Demo c)) then
          [(validMailpitAddress (SMTPAddress (Mailpit (Demo c))), ''demo.mailpit.smtp_address''),
           (validMailAddress (Sender (Mailpit (Demo c))), ''demo.mailpit.sender''),
           (validMailAddress (Recipient (Mailpit (Demo c))), ''demo.mailpit.recipient'')]
        else [])
     @ [(ProvisionedFields (BREG c) \<noteq> [], ''breg.provisioned_fields''),
        (list_all validField (ProvisionedFields (BREG c)), ''breg.provisioned_fields''),
        (AccountCheckFields (BREG c) \<noteq> [], ''breg.account_check_fields''),
        (list_all (\<lambda>s. validField s \<and> contains (ProvisionedFields (BREG c)) s)
           (AccountCheckFields (BREG c)), ''breg.account_check_fields''),
        (contains (AccountCheckFields (BREG c)) (SelectorField (BREG c)),
           ''breg.account_check_fields''),
        (list_all (\<lambda>(k, v). claim_ok k v) (ClaimMap c), ''claim_map'')]"

definition validate :: "Config \<Rightarrow> string + unit" where
  "validate c =
     (let invalid = map snd (filter (\<lambda>(ok, field). \<not> ok) (checks c))
      in if invalid \<noteq> [] then Inl (''configuration invalid: '' @ join '', '' invalid) else Inr ())"

section \<open>Loading\<close>

datatype file_data = NoFile | FileData string bool

text \<open>\<open>readBounded\<close>: at most \<open>limit\<close> bytes; the flag of \<open>FileData\<close> is a read error after them.\<close>

definition readBounded :: "(string \<Rightarrow> file_data) \<Rightarrow> string \<Rightarrow> nat \<Rightarrow> string + string" where
  "readBounded fs path limit = (case fs path of
     NoFile \<Rightarrow> Inl ''file unavailable''
   | FileData b failed \<Rightarrow>
       if failed \<and> length b \<le> limit \<or> limit < length (take (limit + 1) b) then Inl ''file invalid''
       else Inr (take (limit + 1) b))"

datatype yaml_kind = DocumentNode | SequenceNode | MappingNode | ScalarNode | AliasNode

datatype yaml_node = YNode (Kind: yaml_kind) (Value: string) (Content: "yaml_node list")

record yaml_lib =
  yaml_unmarshal :: "string \<Rightarrow> yaml_node option"
  yaml_decode_strict :: "string \<Rightarrow> Config option"
  yaml_second_is_eof :: "string \<Rightarrow> bool"

fun key_in_pairs :: "string \<Rightarrow> yaml_node list \<Rightarrow> bool" where
  "key_in_pairs name (k # v # rest) = (if Value k = name then True else key_in_pairs name rest)"
| "key_in_pairs name _ = False"

definition hasTopLevelKey :: "yaml_node \<Rightarrow> string \<Rightarrow> bool" where
  "hasTopLevelKey document name = (case Content document of
     [m] \<Rightarrow> if Kind m \<noteq> MappingNode then False else key_in_pairs name (Content m)
   | _ \<Rightarrow> False)"

definition LoadConfig :: "yaml_lib \<Rightarrow> (string \<Rightarrow> file_data) \<Rightarrow> string \<Rightarrow> string + Config" where
  "LoadConfig y fs path = (case readBounded fs path (2 ^ 20) of
     Inl _ \<Rightarrow> Inl ''configuration file unavailable''
   | Inr b \<Rightarrow> (case yaml_unmarshal y b of
       None \<Rightarrow> Inl ''configuration YAML invalid''
     | Some document \<Rightarrow>
         if hasTopLevelKey document ''mint''
           then Inl ''configuration invalid: mint is retired; use token_client''
         else (case yaml_decode_strict y b of
           None \<Rightarrow> Inl ''configuration YAML invalid''
         | Some c \<Rightarrow>
             if \<not> yaml_second_is_eof y b then Inl ''configuration must contain one YAML document''
             else (case validate (defaults c) of
               Inl e \<Rightarrow> Inl e | Inr _ \<Rightarrow> Inr (defaults c)))))"

definition LoadConfigFromEnv :: "yaml_lib \<Rightarrow> (string \<Rightarrow> file_data) \<Rightarrow> (string \<Rightarrow> string) \<Rightarrow> string + Config" where
  "LoadConfigFromEnv y fs getenv = LoadConfig y fs (getenv ''REGISTRY_ESIGNET_CONFIG_FILE'')"

section \<open>What validation guarantees\<close>

text \<open>The checks that fail, in order, are exactly what the message names.\<close>

lemma validate_fst: "validate c = (let invalid = map snd (filter (\<lambda>p. \<not> fst p) (checks c))
    in if invalid \<noteq> [] then Inl (''configuration invalid: '' @ join '', '' invalid) else Inr ())"
proof -
  have "(\<lambda>(ok, field). \<not> ok) = (\<lambda>p :: bool \<times> string. \<not> fst p)" by auto
  then show ?thesis by (simp only: validate_def)
qed

lemma validate_Inr: "validate c = Inr () \<longleftrightarrow> list_all fst (checks c)"
  by (simp add: validate_fst Let_def list_all_iff filter_empty_conv)

lemma validate_Inl:
  "validate c = Inl e \<longleftrightarrow> \<not> list_all fst (checks c)
     \<and> e = ''configuration invalid: '' @ join '', '' (map snd (filter (\<lambda>p. \<not> fst p) (checks c)))"
  unfolding validate_fst Let_def list_all_iff map_is_Nil_conv filter_empty_conv
  by (simp only: sum.inject sum.distinct split: if_split) blast

lemma contains_set [simp]: "contains xs x \<longleftrightarrow> x \<in> set xs"
  by (auto simp: contains_def list_ex_iff)

text \<open>A configuration with every check passed, written as one predicate.\<close>

definition endpoints_ok :: "Config \<Rightarrow> bool" where
  "endpoints_ok c \<longleftrightarrow> (\<forall>e \<in> {TokenEndpoint (TokenClient c), AssertionAudience (TokenClient c), BaseURL (BREG c)}.
     validEndpoint e (AllowInsecureHTTP (HTTP c))) \<and> validResource (Resource (TokenClient c))"

definition bounds_ok :: "Config \<Rightarrow> bool" where
  "bounds_ok c \<longleftrightarrow> 1 \<le> AssertionTTLSeconds (TokenClient c) \<and> AssertionTTLSeconds (TokenClient c) \<le> 300
     \<and> 1 \<le> TokenCacheMaxSeconds (TokenClient c) \<and> TokenCacheMaxSeconds (TokenClient c) \<le> 86400
     \<and> 1 \<le> TimeoutSeconds (HTTP c) \<and> TimeoutSeconds (HTTP c) \<le> 120
     \<and> 1 \<le> MaxResponseBytes (HTTP c) \<and> MaxResponseBytes (HTTP c) \<le> 16777216"

definition fields_ok :: "Config \<Rightarrow> bool" where
  "fields_ok c \<longleftrightarrow> list_all validField (ProvisionedFields (BREG c)) \<and> AccountCheckFields (BREG c) \<noteq> []
     \<and> set (AccountCheckFields (BREG c)) \<subseteq> set (ProvisionedFields (BREG c))
     \<and> SelectorField (BREG c) \<in> set (AccountCheckFields (BREG c))
     \<and> (\<forall>(k, v) \<in> set (ClaimMap c). claim_ok k v)"

definition texts_ok :: "Config \<Rightarrow> bool" where
  "texts_ok c \<longleftrightarrow> validText (SubjectIDType c) \<and> validText (tc_ClientID (TokenClient c))
     \<and> validText (KeyID (TokenClient c)) \<and> route_ok (Route (BREG c)) \<and> validText (Selector (BREG c))
     \<and> validScopes (Scopes (TokenClient c))"

definition demo_ok :: "Config \<Rightarrow> bool" where
  "demo_ok c \<longleftrightarrow> \<not> (StaticOTPEnabled (Demo c) \<and> mp_Enabled (Mailpit (Demo c)))
     \<and> (mp_Enabled (Mailpit (Demo c)) \<longrightarrow> validMailpitAddress (SMTPAddress (Mailpit (Demo c)))
          \<and> validMailAddress (Sender (Mailpit (Demo c))) \<and> validMailAddress (Recipient (Mailpit (Demo c))))"

lemma validate_policy:
  assumes "validate c = Inr ()"
  shows "endpoints_ok c" and "bounds_ok c" and "fields_ok c" and "texts_ok c" and "demo_ok c"
proof -
  have all: "list_all fst (checks c)" using assms by (simp add: validate_Inr)
  show "endpoints_ok c" using all by (simp add: checks_def endpoints_ok_def)
  show "bounds_ok c" using all by (simp add: checks_def bounds_ok_def)
  show "fields_ok c" using all
    by (auto simp: checks_def fields_ok_def list_all_iff)
  show "texts_ok c" using all by (simp add: checks_def texts_ok_def)
  show "demo_ok c" using all by (auto simp: checks_def demo_ok_def)
qed

text \<open>The only other checks are of the two secret file names and the static OTP file.\<close>

lemma validate_complete:
  assumes "endpoints_ok c" and "bounds_ok c" and "fields_ok c" and "texts_ok c" and "demo_ok c"
    and "\<not> blank (PSUTSecretFile c)" and "\<not> blank (PrivateKeyFile (TokenClient c))"
    and "StaticOTPEnabled (Demo c) \<longrightarrow> \<not> blank (StaticOTPFile (Demo c))"
    and "validField (SelectorField (BREG c))"
  shows "validate c = Inr ()"
proof -
  have "ProvisionedFields (BREG c) \<noteq> []" using assms(3) by (auto simp: fields_ok_def)
  then show ?thesis using assms
    by (auto simp: validate_Inr checks_def endpoints_ok_def bounds_ok_def fields_ok_def texts_ok_def
        demo_ok_def list_all_iff)
qed

lemma validEndpoint_https:
  assumes "validEndpoint s False"
  shows "\<exists>u. url_parse s = Some u \<and> Scheme u = ''https'' \<and> Host u \<noteq> [] \<and> User u = None
    \<and> RawQuery u = [] \<and> Fragment u = []"
  using assms by (auto simp: validEndpoint_def split: option.splits)

text \<open>No claim may replace a protocol claim, and \<open>sub\<close> can only be the subject identifier.\<close>

lemma claim_ok_policy:
  assumes "claim_ok k v"
  shows "\<not> reservedClaim k" and "k = ''sub'' \<Longrightarrow> v = ''$psut''" and "v = ''$psut'' \<or> validField v"
  using assms by (auto simp: claim_ok_def)

section \<open>Defaults\<close>

lemma defaults_idem: "defaults (defaults c) = defaults c"
  by (simp add: defaults_def default_breg_def default_token_client_def default_http_def)

text \<open>Defaults only fill what is absent.\<close>

lemma defaults_keeps:
  "SubjectIDType c \<noteq> [] \<Longrightarrow> SubjectIDType (defaults c) = SubjectIDType c"
  "Scopes (TokenClient (defaults c)) = Scopes (TokenClient c)"
  "ClaimMap (defaults c) = ClaimMap c" "Demo (defaults c) = Demo c"
  "AllowInsecureHTTP (HTTP (defaults c)) = AllowInsecureHTTP (HTTP c)"
  by (simp_all add: defaults_def default_token_client_def default_http_def)

section \<open>Scopes\<close>

lemma scopes_ok_iff:
  "scopes_ok seen ss \<longleftrightarrow> (\<forall>s \<in> set ss. length s \<le> 256 \<and> validScopeToken s)
     \<and> distinct ss \<and> set seen \<inter> set ss = {}"
  by (induction ss arbitrary: seen) (auto simp: not_less)

lemma validScopes_iff:
  "validScopes ss \<longleftrightarrow> ss \<noteq> [] \<and> length ss \<le> 32 \<and> distinct ss
     \<and> (\<forall>s \<in> set ss. length s \<le> 256 \<and> validScopeToken s) \<and> length (join '' '' ss) \<le> 4096"
  by (auto simp: validScopes_def scopes_ok_iff not_less)

lemma validScopeToken_no_space: "validScopeToken s \<Longrightarrow> CHR '' '' \<notin> set s"
  by (auto simp: validScopeToken_def list_all_iff)

lemma join_eq_Nil: "join [c] xs = [] \<Longrightarrow> xs \<noteq> [] \<Longrightarrow> [] \<in> set xs"
  by (induction "[c]" xs rule: join.induct) auto

text \<open>What the token request sends, the scope parser reads back as the same scopes.\<close>

lemma parseScope_join:
  assumes "validScopes ss"
  shows "parseScope (join '' '' ss) = Some ss"
proof -
  have ok: "ss \<noteq> []" "\<forall>s \<in> set ss. validScopeToken s" "length (join '' '' ss) \<le> 4096"
    using assms by (auto simp: validScopes_iff)
  then have "split_on (CHR '' '') (join '' '' ss) = ss"
    by (intro split_on_join) (auto dest: validScopeToken_no_space)
  moreover have "join '' '' ss \<noteq> []"
    using ok(1,2) join_eq_Nil [of "CHR '' ''" ss] by (auto simp: validScopeToken_def)
  ultimately show ?thesis using ok by (simp add: parseScope_def list_all_iff)
qed

text \<open>And whatever it reads, joined again, is the text it was given.\<close>

lemma parseScope_sound:
  assumes "parseScope sc = Some ss"
  shows "join '' '' ss = sc" and "\<forall>s \<in> set ss. validScopeToken s" and "ss \<noteq> []"
  using assms by (auto simp: parseScope_def join_split_on list_all_iff split: if_splits)

section \<open>Loading\<close>

lemma readBounded_ok: "readBounded fs path limit = Inr b \<Longrightarrow> length b \<le> limit \<and> fs path = FileData b False"
  by (auto simp: readBounded_def split: file_data.splits if_splits)

lemma LoadConfig_ok:
  assumes "LoadConfig y fs path = Inr c"
  shows "validate c = Inr ()" and "defaults c = c"
    and "\<exists>b d. fs path = FileData b False \<and> length b \<le> 2 ^ 20 \<and> yaml_unmarshal y b = Some d
      \<and> \<not> hasTopLevelKey d ''mint'' \<and> map_option defaults (yaml_decode_strict y b) = Some c
      \<and> yaml_second_is_eof y b"
  using assms
  by (auto simp: LoadConfig_def defaults_idem
      split: sum.splits option.splits if_splits dest!: readBounded_ok)

lemma validate_prefix: "validate c = Inl e \<Longrightarrow> prefix ''configuration invalid: '' e"
  unfolding validate_Inl prefix_def by blast

lemma LoadConfig_error:
  assumes "LoadConfig y fs path = Inl e"
  shows "e \<in> {''configuration file unavailable'', ''configuration YAML invalid'',
      ''configuration invalid: mint is retired; use token_client'',
      ''configuration must contain one YAML document''} \<or> prefix ''configuration invalid: '' e"
  using assms unfolding LoadConfig_def
  by (elim sum.split_asm [THEN iffD1, elim_format] disjE exE conjE)
    (auto dest: validate_prefix split: sum.splits option.splits if_splits simp del: prefix_code)

end
