(* ===== verification/GoJson.thy ===== *)
theory GoJson
  imports GoText "HOL-Library.AList"
begin

text \<open>
  \<open>encoding/json\<close> as the program uses it: a value type, \<open>Marshal\<close> to bytes with Go's
  escaping, the parser behind \<open>Decoder.Decode\<close> and \<open>Unmarshal\<close>, the matching of object
  keys to struct fields, and the proof that parsing what was marshalled gives the value
  back with invalid UTF-8 bytes replaced.

  A number is its literal (\<open>json.Number\<close>, or the text \<open>Marshal\<close> prints for a float64).
  An object is the list of its members; a Go \<open>map[string]any\<close> is the canonical list,
  keys distinct and in increasing order, which is the order \<open>Marshal\<close> prints them in.
\<close>

datatype json =
  JNull | JBool bool | JNum string | JStr string | JArr "json list"
| JObj "(string \<times> json) list"

type_synonym goobj = "(string \<times> json) list"

section \<open>Marshal\<close>

definition hex_digit :: "nat \<Rightarrow> char" where
  "hex_digit n = (if n < 10 then char_of (48 + n) else char_of (87 + n))"

text \<open>One piece of a string, escaped as \<open>appendString\<close> with \<open>escapeHTML\<close> does it.\<close>

definition escape_seg :: "nat \<times> string \<Rightarrow> string" where
  "escape_seg p = (case p of (r, b) \<Rightarrow>
     if r < 0x80 then
       (if r = 0x22 \<or> r = 0x5C then CHR 0x5C # b
        else if r = 8 then CHR 0x5C # ''b'' else if r = 12 then CHR 0x5C # ''f''
        else if r = 10 then CHR 0x5C # ''n'' else if r = 13 then CHR 0x5C # ''r''
        else if r = 9 then CHR 0x5C # ''t''
        else if r < 0x20 \<or> r = 0x3C \<or> r = 0x3E \<or> r = 0x26
          then CHR 0x5C # ''u00'' @ [hex_digit (r div 16), hex_digit (r mod 16)]
        else b)
     else if bad_seg p then CHR 0x5C # ''ufffd''
     else if r = 0x2028 \<or> r = 0x2029 then CHR 0x5C # ''u202'' @ [hex_digit (r mod 16)]
     else b)"

definition escape :: "string \<Rightarrow> string" where
  "escape s = concat (map escape_seg (segs s))"

definition marshal_string :: "string \<Rightarrow> string" where
  "marshal_string s = CHR 0x22 # escape s @ [CHR 0x22]"

fun marshal :: "json \<Rightarrow> string"
  and marshal_elems :: "json list \<Rightarrow> string"
  and marshal_members :: "(string \<times> json) list \<Rightarrow> string" where
  "marshal JNull = ''null''"
| "marshal (JBool b) = (if b then ''true'' else ''false'')"
| "marshal (JNum n) = n"
| "marshal (JStr s) = marshal_string s"
| "marshal (JArr xs) = CHR ''['' # marshal_elems xs @ [CHR '']'']"
| "marshal (JObj ms) = CHR ''{'' # marshal_members ms @ [CHR ''}'']"
| "marshal_elems [] = []"
| "marshal_elems (x # xs) = marshal x @ (if xs = [] then [] else CHR '','' # marshal_elems xs)"
| "marshal_members [] = []"
| "marshal_members (m # ms) = marshal_string (fst m) @ CHR '':'' # marshal (snd m)
     @ (if ms = [] then [] else CHR '','' # marshal_members ms)"

section \<open>Parsing\<close>

definition is_ws :: "char \<Rightarrow> bool" where
  "is_ws c \<longleftrightarrow> byte c = 32 \<or> byte c = 9 \<or> byte c = 10 \<or> byte c = 13"

definition skip_ws :: "string \<Rightarrow> string" where
  "skip_ws s = dropWhile is_ws s"

definition hex_val :: "char \<Rightarrow> nat option" where
  "hex_val c = (let b = byte c in
     if 48 \<le> b \<and> b \<le> 57 then Some (b - 48)
     else if 97 \<le> b \<and> b \<le> 102 then Some (b - 87)
     else if 65 \<le> b \<and> b \<le> 70 then Some (b - 55) else None)"

fun hex4 :: "string \<Rightarrow> (nat \<times> string) option" where
  "hex4 (a # b # c # d # t) =
     (case (hex_val a, hex_val b, hex_val c, hex_val d) of
        (Some w, Some x, Some y, Some z) \<Rightarrow> Some (((w * 16 + x) * 16 + y) * 16 + z, t)
      | _ \<Rightarrow> None)"
| "hex4 _ = None"

definition simple_escape :: "char \<Rightarrow> char option" where
  "simple_escape e =
     (if e \<in> {CHR 0x22, CHR 0x5C, CHR ''/''} then Some e
      else if e = CHR ''b'' then Some (CHR 0x08) else if e = CHR ''f'' then Some (CHR 0x0C)
      else if e = CHR ''n'' then Some (CHR 0x0A) else if e = CHR ''r'' then Some (CHR 0x0D)
      else if e = CHR ''t'' then Some (CHR 0x09) else None)"

text \<open>
  A \<open>uXXXX\<close> escape: a surrogate pair is one rune, a lone surrogate is U+FFFD and only
  its own six bytes are consumed.
\<close>

definition unicode_escape :: "string \<Rightarrow> (string \<times> string) option" where
  "unicode_escape t = (case hex4 t of
     None \<Rightarrow> None
   | Some (r, t1) \<Rightarrow>
       if 0xD800 \<le> r \<and> r \<le> 0xDFFF then
         (case t1 of
            x # y # t2 \<Rightarrow>
              (case hex4 t2 of
                 Some (r2, t3) \<Rightarrow>
                   if x = CHR 0x5C \<and> y = CHR ''u'' \<and> r \<le> 0xDBFF \<and> 0xDC00 \<le> r2 \<and> r2 \<le> 0xDFFF
                   then Some (encode_rune (0x10000 + (r - 0xD800) * 0x400 + (r2 - 0xDC00)), t3)
                   else Some (encode_rune rune_error, t1)
               | None \<Rightarrow> Some (encode_rune rune_error, t1))
          | _ \<Rightarrow> Some (encode_rune rune_error, t1))
       else Some (encode_rune r, t1))"

text \<open>The piece of a string literal that starts the input: its text and what follows.\<close>

definition string_piece :: "string \<Rightarrow> (string \<times> string) option" where
  "string_piece s = (case s of
     [] \<Rightarrow> None
   | c # t \<Rightarrow>
       if c = CHR 0x5C then
         (case t of
            [] \<Rightarrow> None
          | e # u \<Rightarrow> if e = CHR ''u'' then unicode_escape u
                     else map_option (\<lambda>x. ([x], u)) (simple_escape e))
       else if byte c < 0x20 then None
       else Some (encode_rune (fst (decode_rune s)), drop (snd (decode_rune s)) s))"

lemma hex4_shorter: "hex4 t = Some (r, t') \<Longrightarrow> length t' < length t"
  by (induction t rule: hex4.induct) (auto split: option.splits)

lemma unicode_escape_shorter: "unicode_escape t = Some (x, t') \<Longrightarrow> length t' < length t"
  by (auto simp: unicode_escape_def split: option.splits list.splits if_splits dest!: hex4_shorter)

lemma string_piece_shorter: "string_piece s = Some (x, t) \<Longrightarrow> length t < length s"
  using decode_rune_size [of s]
  by (auto simp: string_piece_def split: list.splits if_splits dest!: unicode_escape_shorter)

text \<open>The rest of a string literal after its opening quote.\<close>

function parse_string :: "string \<Rightarrow> (string \<times> string) option" where
  "parse_string s =
     (if s \<noteq> [] \<and> hd s = CHR 0x22 then Some ([], tl s)
      else case string_piece s of
        None \<Rightarrow> None
      | Some (x, t) \<Rightarrow> map_option (map_prod (append x) id) (parse_string t))"
  by pat_completeness auto
termination
  by (relation "measure length") (auto dest: string_piece_shorter)

declare parse_string.simps [simp del]

definition parse_frac :: "string \<Rightarrow> (string \<times> string) option" where
  "parse_frac s = (case s of
     c # t \<Rightarrow> if c = CHR ''.'' then
                (if takeWhile is_digit t = [] then None
                 else Some (c # takeWhile is_digit t, dropWhile is_digit t))
              else Some ([], s)
   | [] \<Rightarrow> Some ([], []))"

definition parse_exp :: "string \<Rightarrow> (string \<times> string) option" where
  "parse_exp s = (case s of
     c # t \<Rightarrow>
       if c = CHR ''e'' \<or> c = CHR ''E'' then
         (let (sg, u) = (case t of x # v \<Rightarrow> if x = CHR ''+'' \<or> x = CHR ''-'' then ([x], v) else ([], t)
                         | [] \<Rightarrow> ([], []))
          in if takeWhile is_digit u = [] then None
             else Some (c # sg @ takeWhile is_digit u, dropWhile is_digit u))
       else Some ([], s)
   | [] \<Rightarrow> Some ([], []))"

definition parse_whole :: "string \<Rightarrow> (string \<times> string) option" where
  "parse_whole s = (case s of
     [] \<Rightarrow> None
   | c # t \<Rightarrow> if \<not> is_digit c then None
              else if c = CHR ''0'' then Some ([c], t)
              else Some (takeWhile is_digit s, dropWhile is_digit s))"

definition parse_number :: "string \<Rightarrow> (string \<times> string) option" where
  "parse_number s =
     (let (sg, s1) = (case s of c # t \<Rightarrow> if c = CHR ''-'' then ([c], t) else ([], s) | [] \<Rightarrow> ([], []))
      in case parse_whole s1 of
        None \<Rightarrow> None
      | Some (w, s2) \<Rightarrow> (case parse_frac s2 of
          None \<Rightarrow> None
        | Some (f, s3) \<Rightarrow> (case parse_exp s3 of
            None \<Rightarrow> None
          | Some (e, s4) \<Rightarrow> Some (sg @ w @ f @ e, s4))))"

definition strip :: "string \<Rightarrow> string \<Rightarrow> string option" where
  "strip p s = (if prefix p s then Some (drop (length p) s) else None)"

text \<open>
  The value grammar. The first argument is fuel (twice the length of the input is always
  enough, see \<open>parse_fuel\<close>), the second the nesting still allowed: \<open>encoding/json\<close>
  refuses more than 10000 levels.
\<close>

fun parse_value :: "nat \<Rightarrow> nat \<Rightarrow> string \<Rightarrow> (json \<times> string) option"
  and parse_elems :: "nat \<Rightarrow> nat \<Rightarrow> string \<Rightarrow> (json list \<times> string) option"
  and parse_members :: "nat \<Rightarrow> nat \<Rightarrow> string \<Rightarrow> ((string \<times> json) list \<times> string) option" where
  "parse_value 0 d s = None"
| "parse_value (Suc n) d s = (case skip_ws s of
     [] \<Rightarrow> None
   | c # t \<Rightarrow>
       if c = CHR 0x22 then map_option (map_prod JStr id) (parse_string t)
       else if c = CHR ''['' then
         (if d = 0 then None
          else case skip_ws t of
            [] \<Rightarrow> None
          | x # u \<Rightarrow> if x = CHR '']'' then Some (JArr [], u)
                     else map_option (map_prod JArr id) (parse_elems n (d - 1) (x # u)))
       else if c = CHR ''{'' then
         (if d = 0 then None
          else case skip_ws t of
            [] \<Rightarrow> None
          | x # u \<Rightarrow> if x = CHR ''}'' then Some (JObj [], u)
                     else map_option (map_prod JObj id) (parse_members n (d - 1) (x # u)))
       else if c = CHR ''n'' then map_option (Pair JNull) (strip ''ull'' t)
       else if c = CHR ''t'' then map_option (Pair (JBool True)) (strip ''rue'' t)
       else if c = CHR ''f'' then map_option (Pair (JBool False)) (strip ''alse'' t)
       else map_option (map_prod JNum id) (parse_number (c # t)))"
| "parse_elems 0 d s = None"
| "parse_elems (Suc n) d s = (case parse_value n d s of
     None \<Rightarrow> None
   | Some (v, r) \<Rightarrow> (case skip_ws r of
       [] \<Rightarrow> None
     | x # u \<Rightarrow> if x = CHR '']'' then Some ([v], u)
                else if x = CHR '','' then map_option (map_prod (Cons v) id) (parse_elems n d u)
                else None))"
| "parse_members 0 d s = None"
| "parse_members (Suc n) d s = (case skip_ws s of
     [] \<Rightarrow> None
   | q # t \<Rightarrow> if q \<noteq> CHR 0x22 then None
     else (case parse_string t of
       None \<Rightarrow> None
     | Some (k, r0) \<Rightarrow> (case skip_ws r0 of
         [] \<Rightarrow> None
       | x # r1 \<Rightarrow> if x \<noteq> CHR '':'' then None
         else (case parse_value n d r1 of
           None \<Rightarrow> None
         | Some (v, r) \<Rightarrow> (case skip_ws r of
             [] \<Rightarrow> None
           | y # u \<Rightarrow> if y = CHR ''}'' then Some ([(k, v)], u)
                      else if y = CHR '',''
                        then map_option (map_prod (Cons (k, v)) id) (parse_members n d u)
                      else None)))))"

definition max_nesting :: nat where
  "max_nesting = 10000"

text \<open>\<open>Decoder.Decode\<close> once: the first value of the input and what follows it.\<close>

definition decode_first :: "string \<Rightarrow> (json \<times> string) option" where
  "decode_first s = parse_value (2 * length s + 2) max_nesting s"

text \<open>A whole document: one value and nothing but white space after it.\<close>

definition parse_doc :: "string \<Rightarrow> json option" where
  "parse_doc s = (case decode_first s of
     None \<Rightarrow> None | Some (v, r) \<Rightarrow> if skip_ws r = [] then Some v else None)"

section \<open>Round trip: strings\<close>

lemma hex_val_hex_digit [simp]: "n < 16 \<Longrightarrow> hex_val (hex_digit n) = Some n"
  by (auto simp: hex_val_def hex_digit_def Let_def)

lemma hex_val_chars [simp]:
  "hex_val (CHR ''0'') = Some 0" "hex_val (CHR ''2'') = Some 2" "hex_val (CHR ''f'') = Some 15"
  "hex_val (CHR ''d'') = Some 13"
  by (simp_all add: hex_val_def)

lemma unicode_escape_plain:
  "hex4 t = Some (r, t1) \<Longrightarrow> \<not> (0xD800 \<le> r \<and> r \<le> 0xDFFF)
    \<Longrightarrow> unicode_escape t = Some (encode_rune r, t1)"
  by (auto simp: unicode_escape_def)

lemma encode_rune_ascii: "r < 0x80 \<Longrightarrow> encode_rune r = [char_of r]"
  by (simp add: encode_rune_def Let_def)

lemma char_of_consts: "char_of (34 :: nat) = CHR 0x22" "char_of (92 :: nat) = CHR 0x5C"
  "char_of (8 :: nat) = CHR 0x08" "char_of (9 :: nat) = CHR 0x09" "char_of (10 :: nat) = CHR 0x0A"
  "char_of (12 :: nat) = CHR 0x0C" "char_of (13 :: nat) = CHR 0x0D" "char_of (48 :: nat) = CHR ''0''"
  by (simp_all add: char_of_eq_iff)

lemma valid_seg_head:
  assumes "valid_seg r b"
  obtains c u where "b = c # u" "r < 0x80 \<longrightarrow> byte c = r \<and> u = []" "0x80 \<le> r \<longrightarrow> 0x80 \<le> byte c"
proof -
  obtain c u where b: "b = c # u" using assms by (cases b) (auto simp: valid_seg_def)
  have e: "encode_rune r = c # u" using valid_seg_encode [OF assms] b by simp
  have "r < 0x80 \<longrightarrow> byte c = r \<and> u = []" using e by (auto simp: encode_rune_ascii)
  moreover have "0x80 \<le> r \<longrightarrow> 0x80 \<le> byte c"
    using assms decode_rune_ascii [of c u] by (force simp: valid_seg_def b)
  ultimately show thesis using that b by blast
qed

lemma string_piece_raw:
  assumes "valid_seg r (c # u)" and "c \<noteq> CHR 0x5C" and "0x20 \<le> byte c"
  shows "string_piece ((c # u) @ t) = Some (encode_rune r, t)"
  using assms valid_seg_append [OF assms(1), of t]
  by (simp add: string_piece_def)

lemma escape_seg_short:
  "escape_seg (8, b) = [CHR 0x5C, CHR ''b'']" "escape_seg (9, b) = [CHR 0x5C, CHR ''t'']"
  "escape_seg (10, b) = [CHR 0x5C, CHR ''n'']" "escape_seg (12, b) = [CHR 0x5C, CHR ''f'']"
  "escape_seg (13, b) = [CHR 0x5C, CHR ''r'']"
  "escape_seg (34, b) = CHR 0x5C # b" "escape_seg (92, b) = CHR 0x5C # b"
  by (simp_all add: escape_seg_def)

lemma string_piece_short:
  "string_piece (CHR 0x5C # CHR ''b'' # t) = Some ([CHR 0x08], t)"
  "string_piece (CHR 0x5C # CHR ''t'' # t) = Some ([CHR 0x09], t)"
  "string_piece (CHR 0x5C # CHR ''n'' # t) = Some ([CHR 0x0A], t)"
  "string_piece (CHR 0x5C # CHR ''f'' # t) = Some ([CHR 0x0C], t)"
  "string_piece (CHR 0x5C # CHR ''r'' # t) = Some ([CHR 0x0D], t)"
  "string_piece (CHR 0x5C # CHR 0x22 # t) = Some ([CHR 0x22], t)"
  "string_piece (CHR 0x5C # CHR 0x5C # t) = Some ([CHR 0x5C], t)"
  by (simp_all add: string_piece_def simple_escape_def)

lemma string_piece_escape:
  assumes "p \<in> set (segs s)"
  shows "string_piece (escape_seg p @ t) = Some (encode_rune (fst p), t)
    \<and> hd (escape_seg p @ t) \<noteq> CHR 0x22"
proof -
  obtain r b where p: "p = (r, b)" by (cases p)
  show ?thesis
  proof (cases "bad_seg p")
    case True
    then show ?thesis
      by (simp add: p escape_seg_def bad_seg_def rune_error_def string_piece_def
          unicode_escape_plain)
  next
    case False
    then have v: "valid_seg r b" using segs_valid [OF assms] p by simp
    obtain c u where b: "b = c # u" and asc: "r < 0x80 \<longrightarrow> byte c = r \<and> u = []"
      and high: "0x80 \<le> r \<longrightarrow> 0x80 \<le> byte c"
      using valid_seg_head [OF v] by blast
    show ?thesis
    proof (cases "r < 0x80")
      case True
      then have c: "c = char_of r" "byte c = r" "u = []" using asc by auto
      have plain: "string_piece (c # t) = Some (encode_rune r, t)"
        if "r \<noteq> 0x5C" "0x20 \<le> r"
      proof -
        have "c \<noteq> CHR 0x5C" using that c(2) by auto
        then show ?thesis using string_piece_raw [of r c u t] v c that b by simp
      qed
      consider (quoted) "r = 0x22 \<or> r = 0x5C"
        | (short) "r \<in> {8, 9, 10, 12, 13}"
        | (hex) "r < 0x20 \<or> r = 0x3C \<or> r = 0x3E \<or> r = 0x26" "r \<notin> {8, 9, 10, 12, 13}"
        | (raw) "0x20 \<le> r" "r \<notin> {0x22, 0x5C, 0x3C, 0x3E, 0x26}"
        by force
      then show ?thesis
      proof cases
        case quoted
        then show ?thesis unfolding p b c(3) c(1)
          by (elim disjE)
            (simp_all add: escape_seg_short string_piece_short encode_rune_ascii char_of_consts)
      next
        case short
        then show ?thesis unfolding p
          by (elim insertE emptyE)
            (simp_all add: escape_seg_short string_piece_short encode_rune_ascii char_of_consts)
      next
        case hex
        have "escape_seg p = CHR 0x5C # ''u00'' @ [hex_digit (r div 16), hex_digit (r mod 16)]"
          using hex True by (auto simp: p escape_seg_def)
        moreover have "hex4 (''00'' @ hex_digit (r div 16) # hex_digit (r mod 16) # t) = Some (r, t)"
          using True by simp
        ultimately show ?thesis using True
          by (simp add: p string_piece_def unicode_escape_plain)
      next
        case raw
        then have "escape_seg p = [c]" using True c(3) by (auto simp: p b escape_seg_def)
        moreover have "c \<noteq> CHR 0x22" using raw c(2) by auto
        ultimately show ?thesis using plain raw p by simp
      qed
    next
      case False
      then have c: "c \<noteq> CHR 0x5C" "c \<noteq> CHR 0x22" "0x20 \<le> byte c" using high by auto
      then have raw: "string_piece (c # u @ t) = Some (encode_rune r, t)"
        using string_piece_raw [of r c u t] v b by simp
      have "hex4 (''202'' @ hex_digit (r mod 16) # t) = Some (0x2020 + r mod 16, t)"
        by simp
      with False \<open>\<not> bad_seg p\<close> raw c show ?thesis
        by (auto simp: p b escape_seg_def string_piece_def unicode_escape_plain)
    qed
  qed
qed

lemma parse_string_step:
  assumes "string_piece u = Some (x, t)" and "hd u \<noteq> CHR 0x22"
  shows "parse_string u = map_option (map_prod (append x) id) (parse_string t)"
  using assms by (subst parse_string.simps) simp

lemma parse_string_quote [simp]: "parse_string (CHR 0x22 # t) = Some ([], t)"
  by (subst parse_string.simps) simp

lemma parse_string_escape:
  "parse_string (escape s @ CHR 0x22 # t) = Some (sanitize s, t)"
proof -
  have "parse_string (concat (map escape_seg ps) @ CHR 0x22 # t)
      = Some (concat (map (encode_rune \<circ> fst) ps), t)" if "set ps \<subseteq> set (segs s)" for ps
    using that
  proof (induction ps)
    case (Cons p ps)
    then show ?case
      using string_piece_escape [of p s "concat (map escape_seg ps) @ CHR 0x22 # t"]
      by (simp add: parse_string_step)
  qed simp
  then show ?thesis by (simp add: escape_def sanitize_def runes_def)
qed

section \<open>Round trip: numbers\<close>

definition number_ok :: "string \<Rightarrow> bool" where
  "number_ok l \<longleftrightarrow> parse_number l = Some (l, [])"

text \<open>What may follow a number: a byte that cannot continue it.\<close>

definition delimited :: "string \<Rightarrow> bool" where
  "delimited t \<longleftrightarrow> t = [] \<or> \<not> is_digit (hd t) \<and> hd t \<notin> {CHR ''.'', CHR ''e'', CHR ''E''}"

lemma delimited_simps [simp]:
  "delimited []" "delimited (CHR '','' # t)" "delimited (CHR '']'' # t)" "delimited (CHR ''}'' # t)"
  by (simp_all add: delimited_def is_digit_def)

lemma takeWhile_digits:
  assumes "delimited t"
  shows "takeWhile is_digit (u @ t) = takeWhile is_digit u"
    and "dropWhile is_digit (u @ t) = dropWhile is_digit u @ t"
  using assms
  by (induction u; cases t; auto simp: delimited_def)+

lemma parse_exp_append:
  assumes "parse_exp s = Some (e, [])" and "delimited t"
  shows "parse_exp (s @ t) = Some (e, t)"
proof (cases s)
  case Nil
  then show ?thesis using assms by (cases t) (auto simp: parse_exp_def delimited_def)
next
  case (Cons c u)
  show ?thesis
  proof (cases u)
    case Nil
    then show ?thesis using assms Cons by (auto simp: parse_exp_def split: if_splits)
  next
    case (Cons x v)
    with assms \<open>s = c # u\<close> show ?thesis
      using takeWhile_digits [OF assms(2), of v] takeWhile_digits [OF assms(2), of "x # v"]
      by (auto simp: parse_exp_def Let_def split: if_splits)
  qed
qed

lemma parse_exp_split:
  assumes "parse_exp s = Some (e, r)"
  shows "s = e @ r"
  using assms
  by (auto simp: parse_exp_def Let_def split: list.splits if_splits prod.splits)

lemma parse_frac_split:
  assumes "parse_frac s = Some (f, r)"
  shows "s = f @ r"
  using assms by (auto simp: parse_frac_def split: list.splits if_splits)

lemma parse_whole_split:
  assumes "parse_whole s = Some (w, r)"
  shows "s = w @ r"
  using assms by (auto simp: parse_whole_def split: list.splits if_splits)

text \<open>The tail after the digits: a following piece starts with a point or an \<open>e\<close>.\<close>

lemma takeWhile_digits_head:
  assumes "t = [] \<or> \<not> is_digit (hd t)"
  shows "takeWhile is_digit (u @ t) = takeWhile is_digit u"
    and "dropWhile is_digit (u @ t) = dropWhile is_digit u @ t"
  using assms by (induction u; cases t; auto)+

lemma parse_frac_append:
  assumes "parse_frac s = Some (f, r)" and "delimited t"
  shows "parse_frac (s @ t) = Some (f, r @ t)"
proof (cases s)
  case Nil
  then show ?thesis using assms by (cases t) (auto simp: parse_frac_def delimited_def)
next
  case (Cons c u)
  then show ?thesis using assms takeWhile_digits [OF assms(2), of u]
    by (auto simp: parse_frac_def split: if_splits)
qed

lemma parse_whole_append:
  assumes "parse_whole s = Some (w, r)" and "delimited t"
  shows "parse_whole (s @ t) = Some (w, r @ t)"
proof (cases s)
  case Nil
  then show ?thesis using assms by (simp add: parse_whole_def)
next
  case (Cons c u)
  then show ?thesis using assms takeWhile_digits [OF assms(2), of u]
    by (auto simp: parse_whole_def split: if_splits)
qed

lemma parse_number_append:
  assumes "number_ok l" and "delimited t"
  shows "parse_number (l @ t) = Some (l, t)"
proof -
  have ok: "parse_number l = Some (l, [])" using assms(1) by (simp add: number_ok_def)
  have step: "parse_whole (s @ t) = Some (w, s2 @ t) \<and> parse_frac (s2 @ t) = Some (f, s3 @ t)
      \<and> parse_exp (s3 @ t) = Some (e, t)"
    if "parse_whole s = Some (w, s2)" "parse_frac s2 = Some (f, s3)" "parse_exp s3 = Some (e, [])"
    for s w s2 f s3 e
    using that parse_whole_append parse_frac_append parse_exp_append assms(2) by simp
  show ?thesis
  proof (cases l)
    case Nil
    then show ?thesis using ok by (simp add: parse_number_def parse_whole_def)
  next
    case (Cons c u)
    define sg s1 where sg: "sg = (if c = CHR ''-'' then [c] else [])"
      and s1: "s1 = (if c = CHR ''-'' then u else l)"
    obtain w s2 f s3 e where
      *: "parse_whole s1 = Some (w, s2)" "parse_frac s2 = Some (f, s3)" "parse_exp s3 = Some (e, [])"
      and l: "sg @ w @ f @ e = l"
      using ok Cons by (auto simp: parse_number_def sg s1 split: option.splits if_splits)
    from step [OF *] l Cons show ?thesis
      by (auto simp: parse_number_def sg s1 split: if_splits)
  qed
qed

lemma number_ok_head: "number_ok l \<Longrightarrow> \<exists>c u. l = c # u \<and> (is_digit c \<or> c = CHR ''-'')"
  by (cases l) (auto simp: number_ok_def parse_number_def parse_whole_def Let_def
      split: if_splits option.splits list.splits)

lemma show_nat_head: "0 < n \<Longrightarrow> hd (show_nat n) \<noteq> CHR ''0''"
proof (induction n rule: show_nat.induct)
  case (1 n)
  show ?case
  proof (cases "n < 10")
    case True
    have "byte (digit n) \<noteq> 48" using True "1.prems" by simp
    then have "digit n \<noteq> CHR ''0''" by auto
    then show ?thesis using True by (subst show_nat.simps) simp
  next
    case False
    then show ?thesis using "1.IH" by (subst show_nat.simps) simp
  qed
qed

lemma parse_whole_show_nat: "parse_whole (show_nat n) = Some (show_nat n, [])"
proof -
  obtain c u where s: "show_nat n = c # u" by (cases "show_nat n") auto
  have d: "list_all is_digit (c # u)" using show_nat_digits [of n] s by simp
  show ?thesis
  proof (cases "n = 0")
    case True
    then show ?thesis
      by (simp add: show_nat.simps [of 0] parse_whole_def digit_def is_digit_def char_of_consts)
  next
    case False
    then have "c \<noteq> CHR ''0''" using show_nat_head [of n] s by simp
    then show ?thesis using d by (simp add: s parse_whole_def list_all_iff)
  qed
qed

lemma number_ok_show_int: "number_ok (show_int i)"
proof -
  have plain: "number_ok (show_nat n)" for n
  proof -
    obtain c u where s: "show_nat n = c # u" by (cases "show_nat n") auto
    then have "c \<noteq> CHR ''-''" using show_nat_digits [of n] by (auto dest: is_digit_not_sign)
    then show ?thesis using parse_whole_show_nat [of n]
      by (simp add: number_ok_def parse_number_def s parse_frac_def parse_exp_def)
  qed
  show ?thesis
  proof (cases "i < 0")
    case True
    then show ?thesis using parse_whole_show_nat [of "nat (- i)"]
      by (simp add: show_int_def number_ok_def parse_number_def parse_frac_def parse_exp_def)
  next
    case False
    then show ?thesis using plain by (simp add: show_int_def)
  qed
qed

section \<open>Round trip: values\<close>

text \<open>What a value becomes on its way through the wire: its strings and keys sanitised.\<close>

fun clean :: "json \<Rightarrow> json" where
  "clean (JStr s) = JStr (sanitize s)"
| "clean (JArr xs) = JArr (map clean xs)"
| "clean (JObj ms) = JObj (map (\<lambda>m. (sanitize (fst m), clean (snd m))) ms)"
| "clean v = v"

fun nesting :: "json \<Rightarrow> nat" where
  "nesting (JArr xs) = Suc (foldr (max \<circ> nesting) xs 0)"
| "nesting (JObj ms) = Suc (foldr (max \<circ> (\<lambda>m. nesting (snd m))) ms 0)"
| "nesting v = 0"

fun numbers_ok :: "json \<Rightarrow> bool" where
  "numbers_ok (JNum l) = number_ok l"
| "numbers_ok (JArr xs) = list_all numbers_ok xs"
| "numbers_ok (JObj ms) = list_all (\<lambda>m. numbers_ok (snd m)) ms"
| "numbers_ok v = True"

lemma foldr_max_le: "foldr (max \<circ> f) xs 0 \<le> (k :: nat) \<longleftrightarrow> (\<forall>x \<in> set xs. f x \<le> k)"
  by (induction xs) auto

lemma skip_ws_head [simp]:
  "skip_ws [] = []" "\<not> is_ws c \<Longrightarrow> skip_ws (c # t) = c # t"
  by (simp_all add: skip_ws_def)

lemma not_ws_punct [simp]:
  "\<not> is_ws (CHR 0x22)" "\<not> is_ws (CHR ''['')" "\<not> is_ws (CHR ''{'')" "\<not> is_ws (CHR '']'')"
  "\<not> is_ws (CHR ''}'')" "\<not> is_ws (CHR '','')" "\<not> is_ws (CHR '':'')" "\<not> is_ws (CHR ''n'')"
  "\<not> is_ws (CHR ''t'')" "\<not> is_ws (CHR ''f'')" "\<not> is_ws (CHR ''-'')"
  by (simp_all add: is_ws_def)

lemma is_digit_not_ws: "is_digit c \<Longrightarrow> \<not> is_ws c"
  by (auto simp: is_digit_def is_ws_def)

lemma is_digit_not_punct:
  "is_digit c \<Longrightarrow> c \<notin> {CHR 0x22, CHR ''['', CHR ''{'', CHR ''n'', CHR ''t'', CHR ''f'', CHR '']'',
     CHR ''}''}"
  by (auto simp: is_digit_def)

lemma marshal_head:
  assumes "numbers_ok v"
  obtains c u where "marshal v = c # u" "\<not> is_ws c" "c \<noteq> CHR '']''"
proof (cases v)
  case (JNum l)
  then obtain c u where "l = c # u" "is_digit c \<or> c = CHR ''-''"
    using assms number_ok_head [of l] by auto
  then show thesis using that [of c u] JNum
    by (auto dest: is_digit_not_ws is_digit_not_punct)
next
  case (JBool b)
  then show thesis using that by (cases b) auto
qed (use that in \<open>auto simp: marshal_string_def\<close>)

lemma skip_ws_marshal: "numbers_ok v \<Longrightarrow> skip_ws (marshal v @ t) = marshal v @ t"
  by (erule marshal_head [of v]) simp

lemma parse_value_number:
  assumes "number_ok l" and "delimited t"
  shows "parse_value (Suc n) d (l @ t) = Some (JNum l, t)"
proof -
  obtain c u where l: "l = c # u" and c: "is_digit c \<or> c = CHR ''-''"
    using number_ok_head [OF assms(1)] by blast
  then have "\<not> is_ws c" "c \<notin> {CHR 0x22, CHR ''['', CHR ''{'', CHR ''n'', CHR ''t'', CHR ''f''}"
    using is_digit_not_ws is_digit_not_punct by auto
  then show ?thesis using parse_number_append [OF assms] by (simp add: l)
qed

lemma strip_append [simp]: "strip p (p @ t) = Some t"
  by (simp add: strip_def)

lemma parse_value_literals:
  "parse_value (Suc n) d (''null'' @ t) = Some (JNull, t)"
  "parse_value (Suc n) d (''true'' @ t) = Some (JBool True, t)"
  "parse_value (Suc n) d (''false'' @ t) = Some (JBool False, t)"
  using strip_append [of "''ull''" t] strip_append [of "''rue''" t] strip_append [of "''alse''" t]
  by simp_all

lemma parse_marshal_aux:
  "numbers_ok v \<Longrightarrow> nesting v \<le> d \<Longrightarrow> delimited t \<Longrightarrow> 2 * length (marshal v) + 1 \<le> n
     \<Longrightarrow> parse_value n d (marshal v @ t) = Some (clean v, t)"
  "list_all numbers_ok xs \<Longrightarrow> \<forall>x \<in> set xs. nesting x \<le> d \<Longrightarrow> xs \<noteq> []
     \<Longrightarrow> 2 * length (marshal_elems xs) + 2 \<le> n
     \<Longrightarrow> parse_elems n d (marshal_elems xs @ CHR '']'' # t) = Some (map clean xs, t)"
  "list_all (\<lambda>m. numbers_ok (snd m)) ms \<Longrightarrow> \<forall>m \<in> set ms. nesting (snd m) \<le> d \<Longrightarrow> ms \<noteq> []
     \<Longrightarrow> 2 * length (marshal_members ms) + 2 \<le> n
     \<Longrightarrow> parse_members n d (marshal_members ms @ CHR ''}'' # t)
       = Some (map (\<lambda>m. (sanitize (fst m), clean (snd m))) ms, t)"
proof (induction v and xs and ms arbitrary: d n t and d n t and d n t
    rule: marshal_marshal_elems_marshal_members.induct)
  case 1
  then show ?case
    using parse_value_literals(1) by (cases n) (simp_all del: parse_value.simps)
next
  case (2 b)
  then show ?case
    using parse_value_literals(2,3) by (cases n) (auto simp del: parse_value.simps)
next
  case (3 l)
  then show ?case by (cases n) (simp_all add: parse_value_number del: parse_value.simps)
next
  case (4 s)
  then show ?case by (cases n) (simp_all add: marshal_string_def parse_string_escape)
next
  case (5 xs)
  then obtain m k where n: "n = Suc m" and d: "d = Suc k" by (cases n; cases d) auto
  show ?case
  proof (cases xs)
    case Nil
    then show ?thesis by (simp add: n d)
  next
    case (Cons x ys)
    then obtain c u where c: "marshal x = c # u" "\<not> is_ws c" "c \<noteq> CHR '']''"
      using 5(2) marshal_head by auto
    have "parse_elems m k (marshal_elems xs @ CHR '']'' # t) = Some (map clean xs, t)"
      using 5 Cons by (intro 5(1)) (auto simp: n d foldr_max_le)
    then show ?thesis using c by (simp add: n d Cons)
  qed
next
  case (6 ms)
  then obtain m k where n: "n = Suc m" and d: "d = Suc k" by (cases n; cases d) auto
  show ?case
  proof (cases ms)
    case Nil
    then show ?thesis by (simp add: n d)
  next
    case (Cons x ys)
    have "parse_members m k (marshal_members ms @ CHR ''}'' # t)
        = Some (map (\<lambda>m. (sanitize (fst m), clean (snd m))) ms, t)"
      using 6 Cons by (intro 6(1)) (auto simp: n d foldr_max_le)
    then show ?thesis by (simp add: n d Cons marshal_string_def)
  qed
next
  case 7
  then show ?case by simp
next
  case (8 x xs)
  then obtain m where n: "n = Suc m" by (cases n) auto
  show ?case
  proof (cases xs)
    case Nil
    then have "parse_value m d (marshal x @ CHR '']'' # t) = Some (clean x, CHR '']'' # t)"
      using 8 by (intro 8(1)) (auto simp: n)
    then show ?thesis by (simp add: n Nil)
  next
    case (Cons y ys)
    have "parse_value m d (marshal x @ CHR '','' # marshal_elems xs @ CHR '']'' # t)
        = Some (clean x, CHR '','' # marshal_elems xs @ CHR '']'' # t)"
      using 8 Cons by (intro 8(1)) (auto simp: n)
    moreover have "parse_elems m d (marshal_elems xs @ CHR '']'' # t) = Some (map clean xs, t)"
      using 8 Cons by (intro 8(2)) (auto simp: n)
    ultimately show ?thesis by (simp add: n Cons)
  qed
next
  case 9
  then show ?case by simp
next
  case (10 x xs)
  then obtain m where n: "n = Suc m" by (cases n) auto
  show ?case
  proof (cases xs)
    case Nil
    then have "parse_value m d (marshal (snd x) @ CHR ''}'' # t)
        = Some (clean (snd x), CHR ''}'' # t)"
      using 10 by (intro 10(1)) (auto simp: n)
    then show ?thesis by (simp add: n Nil marshal_string_def parse_string_escape)
  next
    case (Cons y ys)
    have "parse_value m d (marshal (snd x) @ CHR '','' # marshal_members xs @ CHR ''}'' # t)
        = Some (clean (snd x), CHR '','' # marshal_members xs @ CHR ''}'' # t)"
      using 10 Cons by (intro 10(1)) (auto simp: n)
    moreover have "parse_members m d (marshal_members xs @ CHR ''}'' # t)
        = Some (map (\<lambda>m. (sanitize (fst m), clean (snd m))) xs, t)"
      using 10 Cons by (intro 10(2)) (auto simp: n)
    ultimately show ?thesis by (simp add: n Cons marshal_string_def parse_string_escape)
  qed
qed

text \<open>Parsing what \<open>Marshal\<close> printed gives the value back, its strings sanitised.\<close>

lemma decode_first_marshal:
  assumes "numbers_ok v" and "nesting v \<le> max_nesting" and "delimited t"
  shows "decode_first (marshal v @ t) = Some (clean v, t)"
  using assms unfolding decode_first_def by (intro parse_marshal_aux(1)) auto

lemma parse_doc_marshal:
  assumes "numbers_ok v" and "nesting v \<le> max_nesting"
  shows "parse_doc (marshal v) = Some (clean v)"
  using decode_first_marshal [OF assms, of "[]"] by (simp add: parse_doc_def)

section \<open>The fuel is enough\<close>

lemma skip_ws_length: "length (skip_ws s) \<le> length s"
  by (simp add: skip_ws_def length_dropWhile_le)

lemma skip_ws_Cons: "skip_ws s = c # t \<Longrightarrow> length t < length s"
  using skip_ws_length [of s] by simp

lemma parse_string_shorter: "parse_string s = Some (x, t) \<Longrightarrow> length t < length s"
proof (induction s arbitrary: x t rule: parse_string.induct)
  case (1 s)
  show ?case
  proof (cases "s \<noteq> [] \<and> hd s = CHR 0x22")
    case True
    then show ?thesis using "1.prems" by (cases s) (auto simp: parse_string.simps [of s])
  next
    case False
    then obtain y u where y: "string_piece s = Some (y, u)"
      and u: "map_option (map_prod (append y) id) (parse_string u) = Some (x, t)"
      using "1.prems" by (auto simp: parse_string.simps [of s] split: option.splits)
    then obtain z where "parse_string u = Some (z, t)" by auto
    with "1.IH" [of "(y, u)"] False y have "length t < length u" by auto
    with string_piece_shorter [OF y] show ?thesis by simp
  qed
qed

lemma parse_number_shorter:
  assumes "parse_number s = Some (l, r)"
  shows "length r < length s"
proof -
  have whole: "parse_whole s1 = Some (w, s2) \<Longrightarrow> length s2 < length s1" for s1 w s2
    using parse_whole_split [of s1 w s2]
    by (cases s1) (auto simp: parse_whole_def split: if_splits)
  obtain c u where s: "s = c # u"
    using assms by (cases s) (auto simp: parse_number_def parse_whole_def)
  define s1 where "s1 = (if c = CHR ''-'' then u else s)"
  then have "length s1 \<le> length s" using s by auto
  moreover obtain w s2 f s3 e where
    "parse_whole s1 = Some (w, s2)" "parse_frac s2 = Some (f, s3)" "parse_exp s3 = Some (e, r)"
    using assms s by (auto simp: parse_number_def s1_def split: option.splits if_splits)
  ultimately show ?thesis
    using whole parse_frac_split parse_exp_split by fastforce
qed

lemma strip_shorter: "strip p t = Some u \<Longrightarrow> length u \<le> length t"
  by (auto simp: strip_def split: if_splits)

lemma parse_shorter:
  "parse_value n d s = Some (v, r) \<Longrightarrow> length r < length s"
  "parse_elems n d s = Some (xs, r) \<Longrightarrow> length r < length s"
  "parse_members n d s = Some (ms, r) \<Longrightarrow> length r < length s"
proof (induction n d s and n d s and n d s arbitrary: v r and xs r and ms r
    rule: parse_value_parse_elems_parse_members.induct)
  case (2 n d s)
  obtain c t where s: "skip_ws s = c # t" using 2(3) by (cases "skip_ws s") auto
  then have t: "length t < length s" by (rule skip_ws_Cons)
  show ?case
    using 2(3) s t 2(1) [OF s] 2(2) [OF s]
    by (auto split: if_splits list.splits
        dest!: parse_string_shorter parse_number_shorter strip_shorter skip_ws_Cons)
      (force dest: skip_ws_Cons)+
next
  case (4 n d s)
  then show ?case
    by (auto split: option.splits list.splits if_splits dest!: skip_ws_Cons) fastforce+
next
  case (6 n d s)
  then show ?case
    by (auto split: option.splits list.splits if_splits dest!: skip_ws_Cons parse_string_shorter)
      fastforce+
qed auto

text \<open>Any fuel above twice the length of the input gives the same result.\<close>

lemma parse_fuel:
  "2 * length s + 1 \<le> n \<Longrightarrow> 2 * length s + 1 \<le> m \<Longrightarrow> parse_value n d s = parse_value m d s"
  "2 * length s + 2 \<le> n \<Longrightarrow> 2 * length s + 2 \<le> m \<Longrightarrow> parse_elems n d s = parse_elems m d s"
  "2 * length s + 2 \<le> n \<Longrightarrow> 2 * length s + 2 \<le> m \<Longrightarrow> parse_members n d s = parse_members m d s"
proof (induction n d s and n d s and n d s arbitrary: m and m and m
    rule: parse_value_parse_elems_parse_members.induct)
  case (2 n d s)
  obtain k where m: "m = Suc k" using 2(4) by (cases m) auto
  show ?case
  proof (cases "skip_ws s")
    case Nil
    then show ?thesis by (simp add: m)
  next
    case (Cons c t)
    then have t: "length t < length s" by (rule skip_ws_Cons)
    have "parse_elems n (d - 1) (x # u) = parse_elems k (d - 1) (x # u)"
      if "c \<noteq> CHR 0x22" "c = CHR ''[''" "d \<noteq> 0" "skip_ws t = x # u" "x \<noteq> CHR '']''" for x u
      using 2(1) [OF Cons that] skip_ws_length [of t] that(4) t 2(3,4) m by simp
    moreover have "parse_members n (d - 1) (x # u) = parse_members k (d - 1) (x # u)"
      if "c \<noteq> CHR 0x22" "c \<noteq> CHR ''[''" "c = CHR ''{''" "d \<noteq> 0" "skip_ws t = x # u" "x \<noteq> CHR ''}''"
      for x u
      using 2(2) [OF Cons that] skip_ws_length [of t] that(5) t 2(3,4) m by simp
    ultimately show ?thesis by (simp add: m Cons split: list.split)
  qed
next
  case (4 n d s)
  obtain k where m: "m = Suc k" using 4(4) by (cases m) auto
  have v: "parse_value n d s = parse_value k d s" using 4(1) [of k] 4(3,4) m by simp
  have "parse_elems n d u = parse_elems k d u"
    if "parse_value n d s = Some (a, r)" "skip_ws r = x # u" "x \<noteq> CHR '']''" "x = CHR '',''" for a r x u
    using 4(2) [OF that(1) refl that(2-4), of k] parse_shorter(1) [OF that(1)]
      skip_ws_Cons [OF that(2)] 4(3,4) m by simp
  then show ?case by (simp add: m v [symmetric] split: option.split list.split)
next
  case (6 n d s)
  obtain k where m: "m = Suc k" using 6(4) by (cases m) auto
  have len: "length r1 < length s"
    if "skip_ws s = q # t" "parse_string t = Some (key, r0)" "skip_ws r0 = x # r1" for q t key r0 x r1
    using skip_ws_Cons [OF that(1)] parse_string_shorter [OF that(2)] skip_ws_Cons [OF that(3)] by simp
  have v: "parse_value n d r1 = parse_value k d r1"
    if "skip_ws s = q # t" "q = CHR 0x22" "parse_string t = Some (key, r0)" "skip_ws r0 = x # r1"
      "x = CHR '':''" for q t key r0 x r1
    using 6(1) [OF that(1) _ that(3) refl that(4)] that len [OF that(1,3,4)] 6(3,4) m by simp
  have e: "parse_members n d u = parse_members k d u"
    if "skip_ws s = q # t" "q = CHR 0x22" "parse_string t = Some (key, r0)" "skip_ws r0 = x # r1"
      "x = CHR '':''" "parse_value n d r1 = Some (a, r)" "skip_ws r = y # u" "y \<noteq> CHR ''}''"
      "y = CHR '',''" for q t key r0 x r1 a r y u
    using 6(2) [OF that(1) _ that(3) refl that(4) _ that(6) refl that(7-9), of k] that
      len [OF that(1,3,4)] parse_shorter(1) [OF that(6)] skip_ws_Cons [OF that(7)] 6(3,4) m by simp
  show ?case
    using v e by (simp add: m split: option.split list.split)
qed auto

section \<open>Maps, and decoding into structs\<close>

text \<open>
  A \<open>map[string]any\<close> decoded from an object: later members win, keys distinct. The
  canonical form orders the keys as \<open>Marshal\<close> does, byte by byte.
\<close>

definition canon_members :: "(string \<times> 'a) list \<Rightarrow> (string \<times> 'a) list" where
  "canon_members ms = sort_key fst (AList.clearjunk (rev ms))"

fun any_of :: "json \<Rightarrow> json" where
  "any_of (JArr xs) = JArr (map any_of xs)"
| "any_of (JObj ms) = JObj (canon_members (map (\<lambda>m. (fst m, any_of (snd m))) ms))"
| "any_of v = v"

lemma map_of_canon_members: "map_of (canon_members ms) = map_of (rev ms)"
proof -
  have "distinct (map fst (AList.clearjunk (rev ms)))" by (rule distinct_clearjunk)
  then have "map_of (sort_key fst (AList.clearjunk (rev ms))) = map_of (AList.clearjunk (rev ms))"
    by (intro map_of_inject_set [THEN iffD2]) (simp_all add: distinct_map_sort_key)
  then show ?thesis by (simp add: canon_members_def map_of_clearjunk)
qed

text \<open>
  The struct field an object key selects: the field of exactly that name, else one
  whose name differs only in case.
\<close>

definition match_field :: "string list \<Rightarrow> string \<Rightarrow> string option" where
  "match_field names k = (if k \<in> set names then Some k else find (\<lambda>n. equal_fold n k) names)"

text \<open>
  Decoding a value into a \<open>string\<close> or \<open>int64\<close> field that holds \<open>cur\<close>: \<open>null\<close>
  leaves the field alone, a value of another type is an error.
\<close>

fun decode_string_field :: "json \<Rightarrow> string \<Rightarrow> string option" where
  "decode_string_field JNull cur = Some cur"
| "decode_string_field (JStr s) cur = Some s"
| "decode_string_field _ cur = None"

fun decode_int_field :: "json \<Rightarrow> int \<Rightarrow> int option" where
  "decode_int_field JNull cur = Some cur"
| "decode_int_field (JNum l) cur = parse_int l"
| "decode_int_field _ cur = None"

text \<open>An object decoded member by member; the first failing member fails the decoding.\<close>

fun fold_members :: "(string \<times> json \<Rightarrow> 'a \<Rightarrow> 'a option) \<Rightarrow> (string \<times> json) list \<Rightarrow> 'a \<Rightarrow> 'a option"
where
  "fold_members f [] a = Some a"
| "fold_members f (m # ms) a = (case f m a of None \<Rightarrow> None | Some b \<Rightarrow> fold_members f ms b)"

lemma match_field_exact [simp]: "k \<in> set names \<Longrightarrow> match_field names k = Some k"
  by (simp add: match_field_def)

lemmas json_operations [json_eval] = marshal_string_def escape_def escape_seg_def show_int_def show_nat.simps

end
