(* ===== verification/GoCrypto.thy ===== *)
theory GoCrypto
  imports GoText "HOL-Library.Word"
begin

unbundle bit_operations_syntax

text \<open>
  The digests and encodings the program takes from the standard library, on byte strings:
  \<open>crypto/sha256\<close>, \<open>crypto/hmac\<close> over it, \<open>encoding/base64\<close> (raw URL and padded
  standard alphabet) and \<open>encoding/hex\<close>. What the other theories use of them: the lengths
  of the outputs and that the encodings are injective.
\<close>

section \<open>SHA-256\<close>

type_synonym w32 = "32 word"

definition rotr32 :: "nat \<Rightarrow> w32 \<Rightarrow> w32" where
  "rotr32 n x = drop_bit n x OR push_bit (32 - n) x"

definition sha_k :: "w32 list" where
  "sha_k = map of_nat
    [1116352408, 1899447441, 3049323471, 3921009573, 961987163, 1508970993,
     2453635748, 2870763221, 3624381080, 310598401, 607225278, 1426881987,
     1925078388, 2162078206, 2614888103, 3248222580, 3835390401, 4022224774,
     264347078, 604807628, 770255983, 1249150122, 1555081692, 1996064986,
     2554220882, 2821834349, 2952996808, 3210313671, 3336571891, 3584528711,
     113926993, 338241895, 666307205, 773529912, 1294757372, 1396182291,
     1695183700, 1986661051, 2177026350, 2456956037, 2730485921, 2820302411,
     3259730800, 3345764771, 3516065817, 3600352804, 4094571909, 275423344,
     430227734, 506948616, 659060556, 883997877, 958139571, 1322822218,
     1537002063, 1747873779, 1955562222, 2024104815, 2227730452, 2361852424,
     2428436474, 2756734187, 3204031479, 3329325298]"

datatype sha_state = ShaState w32 w32 w32 w32 w32 w32 w32 w32

definition sha_init :: sha_state where
  "sha_init = ShaState 0x6a09e667 0xbb67ae85 0x3c6ef372 0xa54ff53a
                       0x510e527f 0x9b05688c 0x1f83d9ab 0x5be0cd19"

text \<open>The message schedule, newest word first: sixteen words grow to sixty-four.\<close>

definition sha_next :: "w32 list \<Rightarrow> w32" where
  "sha_next ws =
     (let x = ws ! 14; y = ws ! 1;
          s0 = rotr32 7 x XOR rotr32 18 x XOR drop_bit 3 x;
          s1 = rotr32 17 y XOR rotr32 19 y XOR drop_bit 10 y
      in ws ! 15 + s0 + ws ! 6 + s1)"

fun sha_extend :: "nat \<Rightarrow> w32 list \<Rightarrow> w32 list" where
  "sha_extend 0 ws = ws"
| "sha_extend (Suc n) ws = sha_extend n (sha_next ws # ws)"

fun sha_round :: "sha_state \<Rightarrow> w32 \<times> w32 \<Rightarrow> sha_state" where
  "sha_round (ShaState a b c d e f g h) (k, w) =
     (let s1 = rotr32 6 e XOR rotr32 11 e XOR rotr32 25 e;
          ch = (e AND f) XOR (NOT e AND g);
          t1 = h + s1 + ch + k + w;
          s0 = rotr32 2 a XOR rotr32 13 a XOR rotr32 22 a;
          maj = (a AND b) XOR (a AND c) XOR (b AND c);
          t2 = s0 + maj
      in ShaState (t1 + t2) a b c (d + t1) e f g)"

fun sha_add :: "sha_state \<Rightarrow> sha_state \<Rightarrow> sha_state" where
  "sha_add (ShaState a b c d e f g h) (ShaState a' b' c' d' e' f' g' h') =
     ShaState (a + a') (b + b') (c + c') (d + d') (e + e') (f + f') (g + g') (h + h')"

fun words_of_bytes :: "string \<Rightarrow> w32 list" where
  "words_of_bytes (a # b # c # d # s) =
     word_of_nat (((byte a * 256 + byte b) * 256 + byte c) * 256 + byte d) # words_of_bytes s"
| "words_of_bytes _ = []"

definition bytes_of_word :: "w32 \<Rightarrow> string" where
  "bytes_of_word w = [char_of (unat w div 2 ^ 24), char_of (unat w div 2 ^ 16 mod 256),
                      char_of (unat w div 2 ^ 8 mod 256), char_of (unat w mod 256)]"

definition sha_block :: "sha_state \<Rightarrow> string \<Rightarrow> sha_state" where
  "sha_block st block =
     sha_add st (foldl sha_round st (zip sha_k (rev (sha_extend 48 (rev (words_of_bytes block))))))"

function sha_blocks :: "sha_state \<Rightarrow> string \<Rightarrow> sha_state" where
  "sha_blocks st s = (if length s < 64 then st
                      else sha_blocks (sha_block st (take 64 s)) (drop 64 s))"
  by pat_completeness auto
termination
  by (relation "measure (\<lambda>(st, s). length s)") auto

declare sha_blocks.simps [simp del]

fun be_bytes :: "nat \<Rightarrow> nat \<Rightarrow> string" where
  "be_bytes 0 n = []"
| "be_bytes (Suc k) n = be_bytes k (n div 256) @ [char_of (n mod 256)]"

definition sha_pad :: "string \<Rightarrow> string" where
  "sha_pad s = s @ [CHR 0x80] @ replicate ((119 - length s mod 64) mod 64) (CHR 0x00)
                 @ be_bytes 8 (8 * length s)"

fun sha_output :: "sha_state \<Rightarrow> string" where
  "sha_output (ShaState a b c d e f g h) = concat (map bytes_of_word [a, b, c, d, e, f, g, h])"

definition sha256 :: "string \<Rightarrow> string" where
  "sha256 s = sha_output (sha_blocks sha_init (sha_pad s))"

lemma length_sha256 [simp]: "length (sha256 s) = 32"
  by (cases "sha_blocks sha_init (sha_pad s)") (simp add: sha256_def bytes_of_word_def)

section \<open>HMAC\<close>

definition hmac_key :: "string \<Rightarrow> string" where
  "hmac_key k = (let k' = (if 64 < length k then sha256 k else k)
                 in k' @ replicate (64 - length k') (CHR 0x00))"

definition xor_pad :: "nat \<Rightarrow> string \<Rightarrow> string" where
  "xor_pad p k = map (\<lambda>c. char_of (byte c XOR p)) k"

definition hmac_sha256 :: "string \<Rightarrow> string \<Rightarrow> string" where
  "hmac_sha256 k m =
     sha256 (xor_pad 0x5C (hmac_key k) @ sha256 (xor_pad 0x36 (hmac_key k) @ m))"

lemma length_hmac_sha256 [simp]: "length (hmac_sha256 k m) = 32"
  by (simp add: hmac_sha256_def)

section \<open>Base64\<close>

definition b64_common :: "nat \<Rightarrow> char" where
  "b64_common n = (if n < 26 then char_of (65 + n) else if n < 52 then char_of (71 + n)
                   else char_of (n - 4))"

definition b64_url :: "nat \<Rightarrow> char" where
  "b64_url n = (if n = 62 then CHR ''-'' else if n = 63 then CHR ''_'' else b64_common n)"

definition b64_std :: "nat \<Rightarrow> char" where
  "b64_std n = (if n = 62 then CHR ''+'' else if n = 63 then CHR ''/'' else b64_common n)"

text \<open>The base-64 digits of a byte string: four for three bytes, two or three for the rest.\<close>

fun b64_digits :: "string \<Rightarrow> nat list" where
  "b64_digits [] = []"
| "b64_digits [x] = [byte x div 4, byte x mod 4 * 16]"
| "b64_digits [x, y] = [byte x div 4, byte x mod 4 * 16 + byte y div 16, byte y mod 16 * 4]"
| "b64_digits (x # y # z # s) =
     byte x div 4 # (byte x mod 4 * 16 + byte y div 16) # (byte y mod 16 * 4 + byte z div 64)
       # byte z mod 64 # b64_digits s"

definition raw_url_base64 :: "string \<Rightarrow> string" where
  "raw_url_base64 s = map b64_url (b64_digits s)"

definition std_base64 :: "string \<Rightarrow> string" where
  "std_base64 s = map b64_std (b64_digits s) @ replicate ((3 - length s mod 3) mod 3) (CHR ''='')"

text \<open>The bytes the digits stand for, which shows that the encodings are injective.\<close>

fun b64_bytes :: "nat list \<Rightarrow> nat list" where
  "b64_bytes (a # b # c # d # s) =
     (a * 4 + b div 16) # (b mod 16 * 16 + c div 4) # (c mod 4 * 64 + d) # b64_bytes s"
| "b64_bytes [a, b, c] = [a * 4 + b div 16, b mod 16 * 16 + c div 4]"
| "b64_bytes [a, b] = [a * 4 + b div 16]"
| "b64_bytes _ = []"

lemma b64_group:
  fixes x y :: nat
  assumes "y < 256"
  shows "(x mod 4 * 16 + y div 16) div 16 = x mod 4" "(x mod 4 * 16 + y div 16) mod 16 = y div 16"
    "(x mod 16 * 4 + y div 64) div 4 = x mod 16" "(x mod 16 * 4 + y div 64) mod 4 = y div 64"
proof -
  have "y div 16 < 16" "y div 64 < 4" using assms by (auto intro: less_mult_imp_div_less)
  then show "(x mod 4 * 16 + y div 16) div 16 = x mod 4"
    "(x mod 4 * 16 + y div 16) mod 16 = y div 16"
    "(x mod 16 * 4 + y div 64) div 4 = x mod 16" "(x mod 16 * 4 + y div 64) mod 4 = y div 64"
    by (simp_all add: div_add1_eq)
qed

lemma b64_bytes_digits: "b64_bytes (b64_digits s) = map byte s"
  by (induction s rule: b64_digits.induct) (simp_all add: b64_group)

lemma b64_digits_bound: "d \<in> set (b64_digits s) \<Longrightarrow> d < 64"
proof (induction s rule: b64_digits.induct)
  case (2 x)
  have "byte x mod 4 \<le> 3" by simp
  then show ?case using 2 byte_div(1) [of x] by auto
next
  case (3 x y)
  have "byte x mod 4 \<le> 3" "byte y mod 16 \<le> 15" by simp_all
  then have "byte x mod 4 * 16 + byte y div 16 < 64" "byte y mod 16 * 4 < 64"
    using byte_div(2) [of y] by linarith+
  then show ?case using 3 byte_div(1) [of x] by auto
next
  case (4 x y z s)
  have "byte x mod 4 \<le> 3" "byte y mod 16 \<le> 15" by simp_all
  then have "byte x mod 4 * 16 + byte y div 16 < 64" "byte y mod 16 * 4 + byte z div 64 < 64"
    using byte_div(2) [of y] byte_div(3) [of z] by linarith+
  then show ?case using 4 byte_div(1) [of x] by auto
qed simp

lemma b64_digits_inj: "b64_digits s = b64_digits t \<Longrightarrow> s = t"
proof -
  assume "b64_digits s = b64_digits t"
  then have "map byte s = map byte t" using b64_bytes_digits [of s] b64_bytes_digits [of t] by simp
  then show "s = t" by (simp add: inj_map_eq_map inj_def)
qed

lemma b64_common_byte: "n < 62 \<Longrightarrow> byte (b64_common n) =
    (if n < 26 then 65 + n else if n < 52 then 71 + n else n - 4)"
  by (simp add: b64_common_def)

lemma b64_url_inj: "inj_on b64_url {..<64}"
proof (rule inj_onI)
  fix m n assume *: "m \<in> {..<64}" "n \<in> {..<64}" "b64_url m = b64_url n"
  define g where "g k = (if k = 62 then 45 else if k = 63 then 95
      else if k < 26 then 65 + k else if k < 52 then 71 + k else k - 4 :: nat)" for k
  have b: "byte (b64_url k) = g k" if "k < 64" for k
    using that b64_common_byte [of k] by (simp add: b64_url_def g_def)
  have "g m = byte (b64_url m)" using b [of m] * by simp
  also have "\<dots> = byte (b64_url n)" using *(3) by (rule arg_cong)
  also have "\<dots> = g n" using b [of n] * by simp
  finally show "m = n" using *(1,2) by (auto simp: g_def split: if_splits)
qed

lemma raw_url_base64_inj: "raw_url_base64 s = raw_url_base64 t \<Longrightarrow> s = t"
proof -
  assume "raw_url_base64 s = raw_url_base64 t"
  moreover have "inj_on b64_url (set (b64_digits s) \<union> set (b64_digits t))"
    by (rule inj_on_subset [OF b64_url_inj]) (auto dest: b64_digits_bound)
  ultimately have "b64_digits s = b64_digits t"
    by (simp add: raw_url_base64_def inj_on_map_eq_map)
  then show "s = t" by (rule b64_digits_inj)
qed

lemma length_raw_url_base64: "length (raw_url_base64 s) = (4 * length s + 2) div 3"
proof -
  have "length (b64_digits s) = (4 * length s + 2) div 3"
    by (induction s rule: b64_digits.induct) simp_all
  then show ?thesis by (simp add: raw_url_base64_def)
qed

text \<open>
  \<open>RawURLEncoding.DecodeString\<close>: line breaks are skipped, any other byte outside the
  alphabet is an error, as is a last group of one digit; unused bits are not checked.
\<close>

definition b64_url_val :: "char \<Rightarrow> nat option" where
  "b64_url_val c = find (\<lambda>n. b64_url n = c) [0..<64]"

definition raw_url_decode :: "string \<Rightarrow> string option" where
  "raw_url_decode s =
     (let ds = map b64_url_val (filter (\<lambda>c. byte c \<noteq> 10 \<and> byte c \<noteq> 13) s)
      in if None \<in> set ds \<or> length ds mod 4 = 1 then None
         else Some (map char_of (b64_bytes (map the ds))))"

lemma b64_url_val [simp]: "n < 64 \<Longrightarrow> b64_url_val (b64_url n) = Some n"
proof -
  assume n: "n < 64"
  have "find (\<lambda>k. b64_url k = b64_url n) [0..<64] = Some n"
    unfolding find_Some_iff
  proof (intro exI [of _ n] conjI allI impI)
    fix j assume "j < n"
    then show "b64_url ([0..<64] ! j) \<noteq> b64_url n"
      using n inj_onD [OF b64_url_inj, of j n] by auto
  qed (use n in auto)
  then show ?thesis by (simp add: b64_url_val_def)
qed

lemma b64_url_bytes: "n < 64 \<Longrightarrow> 45 \<le> byte (b64_url n) \<and> byte (b64_url n) \<le> 122 \<and> byte (b64_url n) \<noteq> 46"
  using b64_common_byte [of n] by (auto simp: b64_url_def)

lemma raw_url_base64_chars:
  "c \<in> set (raw_url_base64 s) \<Longrightarrow> 45 \<le> byte c \<and> byte c \<le> 122 \<and> byte c \<noteq> 46"
  by (auto simp: raw_url_base64_def dest!: b64_digits_bound b64_url_bytes)

lemma length_b64_digits_mod: "length (b64_digits s) mod 4 \<noteq> 1"
  by (induction s rule: b64_digits.induct) simp_all

lemma raw_url_decode_encode: "raw_url_decode (raw_url_base64 s) = Some s"
proof -
  have f: "filter (\<lambda>c. byte c \<noteq> 10 \<and> byte c \<noteq> 13) (raw_url_base64 s) = raw_url_base64 s"
    using raw_url_base64_chars by (fastforce intro!: filter_True)
  have v: "map b64_url_val (raw_url_base64 s) = map Some (b64_digits s)"
    by (auto simp: raw_url_base64_def dest: b64_digits_bound)
  have "map char_of (b64_bytes (b64_digits s)) = s"
    by (simp add: b64_bytes_digits comp_def)
  then show ?thesis using length_b64_digits_mod [of s]
    by (auto simp: raw_url_decode_def f v comp_def)
qed

section \<open>Hexadecimal\<close>

definition lower_hex :: "nat \<Rightarrow> char" where
  "lower_hex n = (if n < 10 then char_of (48 + n) else char_of (87 + n))"

definition hex_encode :: "string \<Rightarrow> string" where
  "hex_encode s = concat (map (\<lambda>c. [lower_hex (byte c div 16), lower_hex (byte c mod 16)]) s)"

lemma length_hex_encode [simp]: "length (hex_encode s) = 2 * length s"
  by (induction s) (simp_all add: hex_encode_def)

lemma lower_hex_inj: "m < 16 \<Longrightarrow> n < 16 \<Longrightarrow> lower_hex m = lower_hex n \<Longrightarrow> m = n"
proof -
  assume *: "m < 16" "n < 16" "lower_hex m = lower_hex n"
  define g where "g k = (if k < 10 then 48 + k else 87 + k :: nat)" for k
  have b: "byte (lower_hex k) = g k" if "k < 16" for k
    using that by (simp add: lower_hex_def g_def)
  have "g m = byte (lower_hex m)" using b [of m] * by simp
  also have "\<dots> = byte (lower_hex n)" using *(3) by (rule arg_cong)
  also have "\<dots> = g n" using b [of n] * by simp
  finally show "m = n" using *(1,2) by (auto simp: g_def split: if_splits)
qed

lemma hex_encode_inj: "hex_encode s = hex_encode t \<Longrightarrow> s = t"
proof (induction s arbitrary: t)
  case Nil
  then show ?case by (cases t) (simp_all add: hex_encode_def)
next
  case (Cons c s)
  then obtain d u where t: "t = d # u" by (cases t) (simp_all add: hex_encode_def)
  have h: "lower_hex (byte c div 16) = lower_hex (byte d div 16)"
    "lower_hex (byte c mod 16) = lower_hex (byte d mod 16)" "hex_encode s = hex_encode u"
    using Cons.prems by (simp_all add: t hex_encode_def)
  have "byte c div 16 = byte d div 16" "byte c mod 16 = byte d mod 16"
    using h(1,2) lower_hex_inj by simp_all
  then have "byte c = byte d" by (metis div_mult_mod_eq)
  then show ?case using Cons.IH [OF h(3)] t by simp
qed

end
