(* ===== verification/Keys.thy ===== *)
theory Keys
  imports Config GoJson GoCrypto
begin

text \<open>
  \<open>provider/keys.go\<close>: loading the token client's signing key from a PEM block or a JWK,
  and the signed assertion. PEM and ASN.1 decoding, RSA validation, scalar multiplication
  on P-256 and the signatures are cryptographic library code: the fields of \<open>crypto_lib\<close>.
  The JWK checks, the numbers, the curve equation and the JWT encoding are modelled.
\<close>

record rsa_key =
  rsa_N :: nat
  rsa_E :: int
  rsa_D :: nat
  rsa_Primes :: "nat list"

datatype private_key = RSAKey rsa_key | ECDSAKey bool nat nat nat | OtherKey

record assertionKey =
  ak_key :: private_key
  ak_kid :: string
  ak_alg :: string

record crypto_lib =
  pem_decode :: "string \<Rightarrow> (string \<times> string) option"
  parse_pkcs8 :: "string \<Rightarrow> private_key option"
  parse_pkcs1 :: "string \<Rightarrow> private_key option"
  rsa_validate :: "rsa_key \<Rightarrow> bool"
  rsa_precompute :: "rsa_key \<Rightarrow> nat \<times> nat \<times> nat"
  p256_base_mult :: "nat \<Rightarrow> nat \<times> nat"

section \<open>JSON Web Key\<close>

record jwk =
  Kty :: string
  Alg :: string
  Use :: string
  Kid :: string
  jwk_N :: string
  jwk_E :: string
  jwk_D :: string
  jwk_P :: string
  jwk_Q :: string
  DP :: string
  DQ :: string
  QI :: string
  Crv :: string
  jwk_X :: string
  jwk_Y :: string
  KeyOps :: "string list"

definition empty_jwk :: jwk where
  "empty_jwk = \<lparr>Kty = [], Alg = [], Use = [], Kid = [], jwk_N = [], jwk_E = [], jwk_D = [],
     jwk_P = [], jwk_Q = [], DP = [], DQ = [], QI = [], Crv = [], jwk_X = [], jwk_Y = [], KeyOps = []\<rparr>"

definition jwk_fields :: "string list" where
  "jwk_fields = [''Kty'', ''Alg'', ''Use'', ''Kid'', ''N'', ''E'', ''D'', ''P'', ''Q'', ''DP'',
     ''DQ'', ''QI'', ''Crv'', ''X'', ''Y'', ''key_ops'']"

text \<open>Elements decode into the slots the slice already has.\<close>

fun decode_strings :: "json list \<Rightarrow> string list \<Rightarrow> string list option" where
  "decode_strings [] cur = Some []"
| "decode_strings (x # xs) cur =
     (case decode_string_field x (case cur of [] \<Rightarrow> [] | c # _ \<Rightarrow> c) of
        None \<Rightarrow> None
      | Some s \<Rightarrow> map_option (Cons s) (decode_strings xs (drop 1 cur)))"

fun decode_string_slice :: "json \<Rightarrow> string list \<Rightarrow> string list option" where
  "decode_string_slice JNull cur = Some []"
| "decode_string_slice (JArr xs) cur = decode_strings xs cur"
| "decode_string_slice _ cur = None"

definition jwk_member :: "string \<times> json \<Rightarrow> jwk \<Rightarrow> jwk option" where
  "jwk_member m j = (case m of (k, v) \<Rightarrow> (case match_field jwk_fields k of
     None \<Rightarrow> Some j
   | Some f \<Rightarrow>
       if f = ''Kty'' then map_option (\<lambda>x. j\<lparr>Kty := x\<rparr>) (decode_string_field v (Kty j))
       else if f = ''Alg'' then map_option (\<lambda>x. j\<lparr>Alg := x\<rparr>) (decode_string_field v (Alg j))
       else if f = ''Use'' then map_option (\<lambda>x. j\<lparr>Use := x\<rparr>) (decode_string_field v (Use j))
       else if f = ''Kid'' then map_option (\<lambda>x. j\<lparr>Kid := x\<rparr>) (decode_string_field v (Kid j))
       else if f = ''N'' then map_option (\<lambda>x. j\<lparr>jwk_N := x\<rparr>) (decode_string_field v (jwk_N j))
       else if f = ''E'' then map_option (\<lambda>x. j\<lparr>jwk_E := x\<rparr>) (decode_string_field v (jwk_E j))
       else if f = ''D'' then map_option (\<lambda>x. j\<lparr>jwk_D := x\<rparr>) (decode_string_field v (jwk_D j))
       else if f = ''P'' then map_option (\<lambda>x. j\<lparr>jwk_P := x\<rparr>) (decode_string_field v (jwk_P j))
       else if f = ''Q'' then map_option (\<lambda>x. j\<lparr>jwk_Q := x\<rparr>) (decode_string_field v (jwk_Q j))
       else if f = ''DP'' then map_option (\<lambda>x. j\<lparr>DP := x\<rparr>) (decode_string_field v (DP j))
       else if f = ''DQ'' then map_option (\<lambda>x. j\<lparr>DQ := x\<rparr>) (decode_string_field v (DQ j))
       else if f = ''QI'' then map_option (\<lambda>x. j\<lparr>QI := x\<rparr>) (decode_string_field v (QI j))
       else if f = ''Crv'' then map_option (\<lambda>x. j\<lparr>Crv := x\<rparr>) (decode_string_field v (Crv j))
       else if f = ''X'' then map_option (\<lambda>x. j\<lparr>jwk_X := x\<rparr>) (decode_string_field v (jwk_X j))
       else if f = ''Y'' then map_option (\<lambda>x. j\<lparr>jwk_Y := x\<rparr>) (decode_string_field v (jwk_Y j))
       else map_option (\<lambda>x. j\<lparr>KeyOps := x\<rparr>) (decode_string_slice v (KeyOps j))))"

definition unmarshal_jwk :: "string \<Rightarrow> jwk option" where
  "unmarshal_jwk b = (case parse_doc b of
     Some (JObj ms) \<Rightarrow> fold_members jwk_member ms empty_jwk
   | Some JNull \<Rightarrow> Some empty_jwk
   | _ \<Rightarrow> None)"

text \<open>\<open>number\<close>: the big-endian integer of a raw base64 text, absent when it has no bytes.\<close>

definition be_nat :: "string \<Rightarrow> nat" where
  "be_nat bs = foldl (\<lambda>n c. 256 * n + byte c) 0 bs"

definition jwk_number :: "string \<Rightarrow> nat option" where
  "jwk_number s = (case raw_url_decode s of
     None \<Rightarrow> None | Some v \<Rightarrow> if v = [] then None else Some (be_nat v))"

section \<open>P-256\<close>

definition p256_p :: nat where
  "p256_p = 0xffffffff00000001000000000000000000000000ffffffffffffffffffffffff"

definition p256_n :: nat where
  "p256_n = 0xffffffff00000000ffffffffffffffffbce6faada7179e84f3b9cac2fc632551"

definition p256_b :: nat where
  "p256_b = 0x5ac635d8aa3a93e7b3ebbd55769886bc651d06b0cc53b0f63bce3c3e27d2604b"

definition p256_on_curve :: "nat \<Rightarrow> nat \<Rightarrow> bool" where
  "p256_on_curve x y \<longleftrightarrow> x < p256_p \<and> y < p256_p
     \<and> (y * y + 3 * x) mod p256_p = (x * x * x + p256_b) mod p256_p"

section \<open>Loading the key\<close>

text \<open>The RSA and the EC branch of the JWK case: the key, or \<open>None\<close> for any failed check.\<close>

definition jwk_rsa :: "crypto_lib \<Rightarrow> jwk \<Rightarrow> private_key option" where
  "jwk_rsa cl j =
     (case (jwk_number (jwk_N j), jwk_number (jwk_E j), jwk_number (jwk_D j), jwk_number (jwk_P j),
            jwk_number (jwk_Q j), jwk_number (DP j), jwk_number (DQ j), jwk_number (QI j)) of
        (Some n, Some ex, Some d, Some p, Some q, Some dp, Some dq, Some qi) \<Rightarrow>
          if 2 ^ 31 - 1 < ex then None
          else (let r = \<lparr>rsa_N = n, rsa_E = int ex, rsa_D = d, rsa_Primes = [p, q]\<rparr>
                in if \<not> rsa_validate cl r then None
                   else if rsa_precompute cl r \<noteq> (dp, dq, qi) then None
                   else Some (RSAKey r))
      | _ \<Rightarrow> None)"

definition jwk_ec :: "crypto_lib \<Rightarrow> jwk \<Rightarrow> private_key option" where
  "jwk_ec cl j =
     (case (jwk_number (jwk_X j), jwk_number (jwk_Y j), jwk_number (jwk_D j)) of
        (Some x, Some y, Some d) \<Rightarrow>
          if d = 0 \<or> p256_n \<le> d \<or> \<not> p256_on_curve x y then None
          else if p256_base_mult cl d \<noteq> (x, y) then None
          else Some (ECDSAKey True x y d)
      | _ \<Rightarrow> None)"

definition jwk_key :: "crypto_lib \<Rightarrow> string \<Rightarrow> string \<Rightarrow> (private_key \<times> string \<times> string) option" where
  "jwk_key cl b kid = (case unmarshal_jwk b of
     None \<Rightarrow> None
   | Some j \<Rightarrow>
       if Use j \<noteq> [] \<and> Use j \<noteq> ''sig'' \<or> blank (Kid j) \<or> kid \<noteq> [] \<and> kid \<noteq> Kid j then None
       else if KeyOps j \<noteq> [] \<and> KeyOps j \<noteq> [''sign''] then None
       else if Kty j = ''RSA'' \<and> Alg j = ''RS256''
         then map_option (\<lambda>k. (k, Kid j, Alg j)) (jwk_rsa cl j)
       else if Kty j = ''EC'' \<and> Alg j = ''ES256'' \<and> Crv j = ''P-256''
         then map_option (\<lambda>k. (k, Kid j, Alg j)) (jwk_ec cl j)
       else None)"

definition pem_key :: "crypto_lib \<Rightarrow> string \<Rightarrow> string \<Rightarrow> private_key option" where
  "pem_key cl block rest =
     (if rest \<noteq> [] then None
      else case parse_pkcs8 cl block of Some k \<Rightarrow> Some k | None \<Rightarrow> parse_pkcs1 cl block)"

definition check_key :: "crypto_lib \<Rightarrow> private_key \<Rightarrow> string \<Rightarrow> string \<Rightarrow> assertionKey option" where
  "check_key cl key kid alg =
     (case key of
        RSAKey k \<Rightarrow>
          if rsa_N k < 2 ^ 2047 \<or> \<not> rsa_validate cl k \<or> blank kid then None
          else Some \<lparr>ak_key = key, ak_kid = kid, ak_alg = alg\<rparr>
      | ECDSAKey p256 _ _ _ \<Rightarrow>
          if \<not> p256 \<or> blank kid then None
          else Some \<lparr>ak_key = key, ak_kid = kid, ak_alg = ''ES256''\<rparr>
      | OtherKey \<Rightarrow> None)"

definition loadKey :: "crypto_lib \<Rightarrow> (string \<Rightarrow> file_data) \<Rightarrow> string \<Rightarrow> string \<Rightarrow> assertionKey option" where
  "loadKey cl fs path kid = (case readBounded fs path (64 * 1024) of
     Inl _ \<Rightarrow> None
   | Inr b \<Rightarrow> (case pem_decode cl b of
       Some (block, rest) \<Rightarrow> (case pem_key cl block rest of
         None \<Rightarrow> None | Some key \<Rightarrow> check_key cl key kid ''RS256'')
     | None \<Rightarrow> (case jwk_key cl b kid of
         None \<Rightarrow> None | Some (key, kid', alg) \<Rightarrow> check_key cl key kid' alg)))"

section \<open>The client assertion\<close>

text \<open>
  A signer gives the signature of a digest: PKCS #1 v1.5 bytes for an RSA key, the pair
  \<open>(r, s)\<close> for an ECDSA key, which is written as twice thirty-two bytes.
\<close>

record signer =
  sign_rsa :: "rsa_key \<Rightarrow> string \<Rightarrow> string option"
  sign_ecdsa :: "private_key \<Rightarrow> string \<Rightarrow> (nat \<times> nat) option"

definition signature :: "signer \<Rightarrow> private_key \<Rightarrow> string \<Rightarrow> string option" where
  "signature sg key digest = (case key of
     RSAKey k \<Rightarrow> sign_rsa sg k digest
   | ECDSAKey _ _ _ _ \<Rightarrow> map_option (\<lambda>(r, s). be_bytes 32 r @ be_bytes 32 s) (sign_ecdsa sg key digest)
   | OtherKey \<Rightarrow> Some [])"

definition assertion_head :: "assertionKey \<Rightarrow> json" where
  "assertion_head k = JObj (canon_members
     [(''alg'', JStr (ak_alg k)), (''typ'', JStr ''JWT''), (''kid'', JStr (ak_kid k))])"

definition assertion_body :: "string \<Rightarrow> string \<Rightarrow> int \<Rightarrow> int \<Rightarrow> string \<Rightarrow> json" where
  "assertion_body client audience iat exp nonce = JObj (canon_members
     [(''iss'', JStr client), (''sub'', JStr client), (''aud'', JStr audience),
      (''iat'', JNum (show_int iat)), (''exp'', JNum (show_int exp)),
      (''jti'', JStr (raw_url_base64 nonce))])"

definition assertion_input :: "assertionKey \<Rightarrow> string \<Rightarrow> string \<Rightarrow> int \<Rightarrow> int \<Rightarrow> string \<Rightarrow> string" where
  "assertion_input k client audience iat exp nonce =
     raw_url_base64 (marshal (assertion_head k)) @ ''.''
       @ raw_url_base64 (marshal (assertion_body client audience iat exp nonce))"

text \<open>\<open>nonce\<close> is what \<open>rand.Read\<close> filled the twenty-four bytes with, if it did.\<close>

definition assertion :: "signer \<Rightarrow> assertionKey \<Rightarrow> string option \<Rightarrow> string \<Rightarrow> string \<Rightarrow> int \<Rightarrow> int
    \<Rightarrow> provider_error + string" where
  "assertion sg k nonce client audience iat exp = (case nonce of
     None \<Rightarrow> Inl ErrUnavailable
   | Some n \<Rightarrow>
       let input = assertion_input k client audience iat exp n
       in case signature sg (ak_key k) (sha256 input) of
            None \<Rightarrow> Inl ErrUnavailable
          | Some sig \<Rightarrow> Inr (input @ ''.'' @ raw_url_base64 sig))"

section \<open>What a loaded key satisfies\<close>

definition key_policy :: "crypto_lib \<Rightarrow> assertionKey \<Rightarrow> bool" where
  "key_policy cl a \<longleftrightarrow> \<not> blank (ak_kid a) \<and>
     (case ak_key a of
        RSAKey k \<Rightarrow> ak_alg a = ''RS256'' \<and> 2 ^ 2047 \<le> rsa_N k \<and> rsa_validate cl k
      | ECDSAKey p256 _ _ _ \<Rightarrow> ak_alg a = ''ES256'' \<and> p256
      | OtherKey \<Rightarrow> False)"

lemma check_key_policy:
  "check_key cl key kid alg = Some a \<Longrightarrow> (\<And>k. key = RSAKey k \<Longrightarrow> alg = ''RS256'') \<Longrightarrow> key_policy cl a"
  by (auto simp: check_key_def key_policy_def split: private_key.splits if_splits)

lemma jwk_key_alg:
  assumes "jwk_key cl b kid = Some (key, kid', alg)"
  shows "key = RSAKey k \<Longrightarrow> alg = ''RS256''" and "kid = [] \<or> kid' = kid"
  using assms
  by (auto simp: jwk_key_def jwk_ec_def split: option.splits if_splits prod.splits)

lemma loadKey_policy:
  assumes "loadKey cl fs path kid = Some a"
  shows "key_policy cl a"
  using assms
  by (auto simp: loadKey_def split: sum.splits option.splits prod.splits
      intro!: check_key_policy dest: jwk_key_alg(1))

lemma check_key_kid: "check_key cl key kid alg = Some a \<Longrightarrow> ak_kid a = kid"
  by (auto simp: check_key_def split: private_key.splits if_splits)

lemma loadKey_kid:
  assumes "loadKey cl fs path kid = Some a" and "kid \<noteq> []"
  shows "ak_kid a = kid"
  using assms
  by (auto simp: loadKey_def split: sum.splits option.splits prod.splits
      dest!: check_key_kid jwk_key_alg(2))

section \<open>What the assertion says\<close>

lemma assertion_head_members:
  "assertion_head k = JObj [(''alg'', JStr (ak_alg k)), (''kid'', JStr (ak_kid k)), (''typ'', JStr ''JWT'')]"
  by (simp add: assertion_head_def canon_members_def less_char_def less_eq_char_def)

lemma assertion_body_members:
  "assertion_body client audience iat exp nonce = JObj
     [(''aud'', JStr audience), (''exp'', JNum (show_int exp)), (''iat'', JNum (show_int iat)),
      (''iss'', JStr client), (''jti'', JStr (raw_url_base64 nonce)), (''sub'', JStr client)]"
  by (simp add: assertion_body_def canon_members_def less_char_def less_eq_char_def)

lemma sanitize_ascii: "list_all (\<lambda>c. byte c < 0x80) s \<Longrightarrow> sanitize s = s"
  by (simp add: sanitize_valid valid_utf8_ascii)

lemma sanitize_base64 [simp]: "sanitize (raw_url_base64 s) = raw_url_base64 s"
proof (rule sanitize_ascii)
  show "list_all (\<lambda>c. byte c < 0x80) (raw_url_base64 s)"
    unfolding list_all_iff
  proof
    fix c assume "c \<in> set (raw_url_base64 s)"
    from raw_url_base64_chars [OF this] show "byte c < 0x80" by simp
  qed
qed

lemma parse_assertion_head:
  "parse_doc (marshal (assertion_head k)) = Some (JObj
     [(''alg'', JStr (sanitize (ak_alg k))), (''kid'', JStr (sanitize (ak_kid k))), (''typ'', JStr ''JWT'')])"
  by (subst parse_doc_marshal) (simp_all add: assertion_head_members max_nesting_def sanitize_ascii)

lemma parse_assertion_body:
  "parse_doc (marshal (assertion_body client audience iat exp nonce)) = Some (JObj
     [(''aud'', JStr (sanitize audience)), (''exp'', JNum (show_int exp)),
      (''iat'', JNum (show_int iat)), (''iss'', JStr (sanitize client)),
      (''jti'', JStr (raw_url_base64 nonce)), (''sub'', JStr (sanitize client))])"
  by (subst parse_doc_marshal)
    (simp_all add: assertion_body_members max_nesting_def sanitize_ascii number_ok_show_int)

lemma base64_no_dot: "CHR ''.'' \<notin> set (raw_url_base64 s)"
  by (auto dest: raw_url_base64_chars)

lemma assertion_split:
  assumes "assertion sg k nonce client audience iat exp = Inr tok"
  obtains n sig where "nonce = Some n"
    "split_on (CHR ''.'') tok = [raw_url_base64 (marshal (assertion_head k)),
       raw_url_base64 (marshal (assertion_body client audience iat exp n)), raw_url_base64 sig]"
    "signature sg (ak_key k) (sha256 (assertion_input k client audience iat exp n)) = Some sig"
proof -
  obtain n sig where n: "nonce = Some n"
    and sig: "signature sg (ak_key k) (sha256 (assertion_input k client audience iat exp n)) = Some sig"
    and tok: "tok = assertion_input k client audience iat exp n @ ''.'' @ raw_url_base64 sig"
    using assms by (auto simp: assertion_def Let_def split: option.splits)
  have "split_on (CHR ''.'') tok = [raw_url_base64 (marshal (assertion_head k)),
       raw_url_base64 (marshal (assertion_body client audience iat exp n)), raw_url_base64 sig]"
    by (simp add: tok assertion_input_def split_on_append split_on_absent base64_no_dot)
  with n sig show thesis using that by blast
qed

end
