(* ===== verification/World.thy ===== *)
theory World
  imports Keys
begin

text \<open>
  The world the provider talks to, and the state an operation threads through it.

  Every interaction with the world (reading the clock, asking a context whether it is
  done, random bytes, an HTTP exchange) happens at a logical time, the number of
  interactions before it; the fields of \<open>env\<close> say what the world answers at each. So the
  clock may advance, the context may be cancelled and the servers may change their
  answers between any two steps of an operation. Times are nanoseconds since the epoch.

  \<open>pstate\<close> is the mutable part of the \<open>Provider\<close> struct (the token cache), the logical
  time and the requests sent so far.
\<close>

record http_request =
  rq_url :: string
  rq_content_type :: string
  rq_accept :: string
  rq_authorization :: "string option"
  rq_body :: string

text \<open>
  What \<open>http.Client.Do\<close> and reading the body give: no response, or a status and the
  bytes the body delivered, with a flag when reading failed after them. The client does
  not follow redirects, so a redirect is an ordinary response.
\<close>

datatype http_outcome = TransportError | HttpResponse int string bool

text \<open>The commands the Mailpit verifier sends over one SMTP connection.\<close>

datatype smtp_command =
  Dial string | NewClient string | MailFrom string | RcptTo string | DataCommand
| WriteData string | CloseData | Quit

text \<open>
  \<open>env_ctx\<close> is the caller's context, \<open>env_timeout\<close> the timer of a context derived from it
  with \<open>WithTimeout\<close>. \<open>env_code\<close> is \<open>rand.Int\<close> below one million.
\<close>

record env =
  env_now :: "nat \<Rightarrow> int"
  env_ctx :: "nat \<Rightarrow> ctx_error option"
  env_timeout :: "nat \<Rightarrow> bool"
  env_code :: "nat \<Rightarrow> nat option"
  env_smtp :: "nat \<Rightarrow> smtp_command \<Rightarrow> bool"
  env_http :: "nat \<Rightarrow> http_request \<Rightarrow> http_outcome"
  env_rand :: "nat \<Rightarrow> (nat \<Rightarrow> char) option"
  env_signer :: "nat \<Rightarrow> signer"

record pstate =
  token :: string
  tokenDeadline :: int
  tick :: nat
  sent :: "http_request list"

record provider =
  config :: Config
  secret :: string
  key :: assertionKey

definition second :: int where
  "second = 1000000000"

definition unix :: "int \<Rightarrow> int" where
  "unix t = t div second"

text \<open>\<open>p.now()\<close>, \<open>ctx.Err() != nil\<close>.\<close>

definition now :: "env \<Rightarrow> pstate \<Rightarrow> int \<times> pstate" where
  "now E s = (env_now E (tick s), s\<lparr>tick := Suc (tick s)\<rparr>)"

definition ctx_done :: "env \<Rightarrow> pstate \<Rightarrow> bool \<times> pstate" where
  "ctx_done E s = (env_ctx E (tick s) \<noteq> None, s\<lparr>tick := Suc (tick s)\<rparr>)"

text \<open>\<open>rand.Read\<close> into an array of \<open>k\<close> bytes.\<close>

definition rand_read :: "env \<Rightarrow> nat \<Rightarrow> nat \<Rightarrow> string option" where
  "rand_read E n k = map_option (\<lambda>f. map f [0..<k]) (env_rand E n)"

lemma rand_read_length: "rand_read E n k = Some b \<Longrightarrow> length b = k"
  by (auto simp: rand_read_def)

text \<open>The context derived with a timeout is done when its parent is, or its timer fired.\<close>

definition call_ctx :: "env \<Rightarrow> nat \<Rightarrow> ctx_error option" where
  "call_ctx E n = (case env_ctx E n of
     Some e \<Rightarrow> Some e | None \<Rightarrow> if env_timeout E n then Some DeadlineExceeded else None)"

lemma call_ctx_None: "call_ctx E n = None \<longleftrightarrow> env_ctx E n = None \<and> \<not> env_timeout E n"
  by (simp add: call_ctx_def split: option.splits)

lemma unix_add_seconds: "unix (t + n * second) = unix t + n"
  by (simp add: unix_def second_def)

lemma now_simps [simp]:
  "fst (now E s) = env_now E (tick s)" "token (snd (now E s)) = token s"
  "tokenDeadline (snd (now E s)) = tokenDeadline s" "sent (snd (now E s)) = sent s"
  "tick (snd (now E s)) = Suc (tick s)"
  by (simp_all add: now_def)

lemma ctx_done_simps [simp]:
  "fst (ctx_done E s) \<longleftrightarrow> env_ctx E (tick s) \<noteq> None" "token (snd (ctx_done E s)) = token s"
  "tokenDeadline (snd (ctx_done E s)) = tokenDeadline s" "sent (snd (ctx_done E s)) = sent s"
  "tick (snd (ctx_done E s)) = Suc (tick s)"
  by (simp_all add: ctx_done_def)

end
