(* ===== verification/Http.thy ===== *)
theory Http
  imports World
begin

text \<open>
  \<open>provider/http.go\<close>: the bounded HTTP exchange, the acquisition of an access token, the
  token cache as one caller sees it, and the record lookup. What several callers do to the
  cache at once is the theory \<open>TokenCache\<close>, which uses the same steps.
\<close>

type_synonym 'a io = "(provider_error + 'a) \<times> pstate"

abbreviation "fails s \<equiv> (Inl ErrUnavailable, s)"

section \<open>One bounded exchange\<close>

text \<open>\<open>http.NewRequestWithContext\<close> parses the target again.\<close>

definition new_request :: "string \<Rightarrow> string \<Rightarrow> string option \<Rightarrow> string \<Rightarrow> http_request option" where
  "new_request target content_type authorization body =
     (case url_parse target of
        None \<Rightarrow> None
      | Some _ \<Rightarrow> Some \<lparr>rq_url = target, rq_content_type = content_type,
          rq_accept = ''application/json'', rq_authorization = authorization, rq_body = body\<rparr>)"

definition request :: "env \<Rightarrow> Config \<Rightarrow> http_request \<Rightarrow> pstate \<Rightarrow> (int \<times> string) io" where
  "request E c rq s =
     (let s' = s\<lparr>tick := Suc (tick s), sent := sent s @ [rq]\<rparr>;
          limit = nat (MaxResponseBytes (HTTP c))
      in case env_http E (tick s) rq of
           TransportError \<Rightarrow> fails s'
         | HttpResponse status body failed \<Rightarrow>
             let raw = take (limit + 1) body
             in if failed \<and> length body \<le> limit \<or> limit < length raw then fails s'
                else (Inr (status, raw), s'))"

section \<open>Decoding the three responses\<close>

definition decode_struct :: "(string \<times> json \<Rightarrow> 'a \<Rightarrow> 'a option) \<Rightarrow> json \<Rightarrow> 'a \<Rightarrow> 'a option" where
  "decode_struct f v a = (case v of JObj ms \<Rightarrow> fold_members f ms a | JNull \<Rightarrow> Some a | _ \<Rightarrow> None)"

definition decodeJSON :: "(string \<times> json \<Rightarrow> 'a \<Rightarrow> 'a option) \<Rightarrow> 'a \<Rightarrow> string \<Rightarrow> 'a option" where
  "decodeJSON f a raw = (case parse_doc raw of None \<Rightarrow> None | Some v \<Rightarrow> decode_struct f v a)"

record token_response =
  AccessToken :: string
  TokenType :: string
  ExpiresIn :: int
  Scope :: "string option"

definition no_token :: token_response where
  "no_token = \<lparr>AccessToken = [], TokenType = [], ExpiresIn = 0, Scope = None\<rparr>"

text \<open>A pointer field: \<open>null\<close> makes it nil.\<close>

fun decode_scope_field :: "json \<Rightarrow> string option option" where
  "decode_scope_field JNull = Some None"
| "decode_scope_field (JStr x) = Some (Some x)"
| "decode_scope_field _ = None"

definition token_member :: "string \<times> json \<Rightarrow> token_response \<Rightarrow> token_response option" where
  "token_member m out = (case m of (k, v) \<Rightarrow>
     (case match_field [''access_token'', ''token_type'', ''expires_in'', ''scope''] k of
        None \<Rightarrow> Some out
      | Some f \<Rightarrow>
          if f = ''access_token'' then
            map_option (\<lambda>x. out\<lparr>AccessToken := x\<rparr>) (decode_string_field v (AccessToken out))
          else if f = ''token_type'' then
            map_option (\<lambda>x. out\<lparr>TokenType := x\<rparr>) (decode_string_field v (TokenType out))
          else if f = ''expires_in'' then
            map_option (\<lambda>x. out\<lparr>ExpiresIn := x\<rparr>) (decode_int_field v (ExpiresIn out))
          else map_option (\<lambda>x. out\<lparr>Scope := x\<rparr>) (decode_scope_field v)))"

definition problem_member :: "string \<times> json \<Rightarrow> string \<Rightarrow> string option" where
  "problem_member m code = (case m of (k, v) \<Rightarrow>
     (case match_field [''code''] k of None \<Rightarrow> Some code | Some _ \<Rightarrow> decode_string_field v code))"

text \<open>
  \<open>domainData\<close> decodes into a \<open>map[string]any\<close>: nil is \<open>None\<close>, a second object adds to
  the map the first one made. \<open>UseNumber\<close> keeps the literal of every number.
\<close>

fun decode_map_field :: "json \<Rightarrow> goobj option \<Rightarrow> goobj option option" where
  "decode_map_field JNull cur = Some None"
| "decode_map_field (JObj ms) cur =
     Some (Some (canon_members ((case cur of None \<Rightarrow> [] | Some old \<Rightarrow> old)
        @ map (\<lambda>m. (fst m, any_of (snd m))) ms)))"
| "decode_map_field _ cur = None"

definition data_member :: "string \<times> json \<Rightarrow> goobj option \<Rightarrow> goobj option option" where
  "data_member m data = (case m of (k, v) \<Rightarrow>
     (case match_field [''domainData''] k of
        None \<Rightarrow> Some data | Some _ \<Rightarrow> decode_map_field v data))"

definition lookup_member :: "string \<times> json \<Rightarrow> goobj option \<Rightarrow> goobj option option" where
  "lookup_member m out = (case m of (k, v) \<Rightarrow>
     (case match_field [''data''] k of
        None \<Rightarrow> Some out | Some _ \<Rightarrow> decode_struct data_member v out))"

text \<open>
  Members of other names are passed over, before and after the ones that are read, so the
  registry's envelope may carry whatever else it likes.
\<close>

lemma fold_members_append:
  "fold_members f (xs @ ys) a = (case fold_members f xs a of None \<Rightarrow> None | Some b \<Rightarrow> fold_members f ys b)"
  by (induction xs arbitrary: a) (simp_all split: option.splits)

lemma fold_members_skip: "(\<And>m. m \<in> set ms \<Longrightarrow> f m a = Some a) \<Longrightarrow> fold_members f ms a = Some a"
  by (induction ms) simp_all

lemma decode_envelope:
  assumes "\<forall>m \<in> set (before @ after). \<not> equal_fold ''data'' (fst m)"
    and "\<forall>m \<in> set (pre @ post). \<not> equal_fold ''domainData'' (fst m)"
  shows "decode_struct lookup_member
      (JObj (before @ (''data'', JObj (pre @ (''domainData'', JObj ms) # post)) # after)) None
    = Some (Some (canon_members (map (\<lambda>m. (fst m, any_of (snd m))) ms)))"
proof -
  have data: "lookup_member m out = Some out" if "m \<in> set before \<union> set after" for m out
  proof -
    have "\<not> equal_fold ''data'' (fst m)" using assms(1) that by auto
    moreover from this have "fst m \<noteq> ''data''" by (metis equal_fold_refl)
    ultimately show ?thesis by (cases m) (simp add: lookup_member_def match_field_def)
  qed
  have domain: "data_member m out = Some out" if "m \<in> set pre \<union> set post" for m out
  proof -
    have "\<not> equal_fold ''domainData'' (fst m)" using assms(2) that by auto
    moreover from this have "fst m \<noteq> ''domainData''" by (metis equal_fold_refl)
    ultimately show ?thesis by (cases m) (simp add: data_member_def match_field_def)
  qed
  let ?out = "Some (canon_members (map (\<lambda>m. (fst m, any_of (snd m))) ms))"
  have "fold_members data_member (pre @ (''domainData'', JObj ms) # post) None = Some ?out"
    by (simp add: fold_members_append fold_members_skip domain)
      (subst data_member_def, simp add: fold_members_skip domain)
  then have "lookup_member (''data'', JObj (pre @ (''domainData'', JObj ms) # post)) None = Some ?out"
    by (simp add: lookup_member_def decode_struct_def)
  then show ?thesis
    by (simp add: decode_struct_def fold_members_append fold_members_skip data)
qed

section \<open>Acquiring a token\<close>

definition token_form :: "TokenClientConfig \<Rightarrow> string \<Rightarrow> (string \<times> string) list" where
  "token_form t tok =
     [(''grant_type'', ''client_credentials''), (''client_id'', tc_ClientID t),
      (''client_assertion_type'', ''urn:ietf:params:oauth:client-assertion-type:jwt-bearer''),
      (''client_assertion'', tok), (''resource'', Resource t), (''scope'', join '' '' (Scopes t))]"

text \<open>The checks on a decoded token response, and the lifetime the cache gives the token.\<close>

definition scope_granted :: "string list \<Rightarrow> string option \<Rightarrow> bool" where
  "scope_granted requested sc = (case sc of
     None \<Rightarrow> True
   | Some x \<Rightarrow> (case parseScope x of
       None \<Rightarrow> False | Some granted \<Rightarrow> list_all (contains granted) requested))"

definition token_accepted :: "TokenClientConfig \<Rightarrow> token_response \<Rightarrow> bool" where
  "token_accepted t out \<longleftrightarrow>
     \<not> (AccessToken out = [] \<or> 64 * 1024 < length (AccessToken out)
        \<or> \<not> equal_fold (TokenType out) ''Bearer'' \<or> ExpiresIn out \<le> 0)
     \<and> scope_granted (Scopes t) (Scope out)
     \<and> list_all (\<lambda>r. \<not> (r \<le> 32 \<or> 127 \<le> r)) (runes (AccessToken out))"

definition token_lifetime :: "TokenClientConfig \<Rightarrow> token_response \<Rightarrow> int" where
  "token_lifetime t out =
     (if TokenCacheMaxSeconds t < ExpiresIn out then TokenCacheMaxSeconds t else ExpiresIn out) * second"

definition acquire :: "env \<Rightarrow> provider \<Rightarrow> int \<Rightarrow> pstate \<Rightarrow> (string \<times> int) io" where
  "acquire E P start s =
     (let t = TokenClient (config P); s1 = s\<lparr>tick := Suc (tick s)\<rparr>
      in case assertion (env_signer E (tick s)) (key P) (rand_read E (tick s) 24) (tc_ClientID t)
               (AssertionAudience t) (unix start) (unix start + AssertionTTLSeconds t) of
           Inl _ \<Rightarrow> fails s1
         | Inr tok \<Rightarrow>
             (case new_request (TokenEndpoint t) ''application/x-www-form-urlencoded'' None
                     (form_encode (token_form t tok)) of
                None \<Rightarrow> fails s1
              | Some rq \<Rightarrow>
                  (case request E (config P) rq s1 of
                     (Inl _, s2) \<Rightarrow> fails s2
                   | (Inr (status, body), s2) \<Rightarrow>
                       if status \<noteq> 200 then fails s2
                       else (case decodeJSON token_member no_token body of
                          None \<Rightarrow> fails s2
                        | Some out \<Rightarrow>
                            if token_accepted t out
                            then (Inr (AccessToken out, token_lifetime t out), s2)
                            else fails s2))))"

section \<open>The cache\<close>

text \<open>The guard of the first critical section: the clock is read only if there is a token.\<close>

definition token_fresh :: "env \<Rightarrow> pstate \<Rightarrow> bool \<times> pstate" where
  "token_fresh E s =
     (if token s = [] then (False, s)
      else case now E s of (t, s') \<Rightarrow> (t < tokenDeadline s, s'))"

definition clear_token :: "pstate \<Rightarrow> pstate" where
  "clear_token s = s\<lparr>token := []\<rparr>"

text \<open>The second critical section: what an acquisition leaves in the cache.\<close>

definition store_token :: "env \<Rightarrow> int \<Rightarrow> provider_error + (string \<times> int) \<Rightarrow> pstate \<Rightarrow> string io" where
  "store_token E start r s = (case r of
     Inl e \<Rightarrow> (Inl e, s)
   | Inr (tok, lifetime) \<Rightarrow>
       (let deadline = start + lifetime
        in case now E s of (t, s') \<Rightarrow>
             if \<not> t < deadline then fails s'
             else (Inr tok, s'\<lparr>token := tok, tokenDeadline := deadline\<rparr>)))"

text \<open>\<open>accessToken\<close> when no other call is acquiring.\<close>

definition accessToken :: "env \<Rightarrow> provider \<Rightarrow> pstate \<Rightarrow> string io" where
  "accessToken E P s =
     (case ctx_done E s of (stop, s1) \<Rightarrow>
        if stop then fails s1
        else (case token_fresh E s1 of (fresh, s2) \<Rightarrow>
          if fresh then (Inr (token s2), s2)
          else (case now E (clear_token s2) of (start, s3) \<Rightarrow>
            (case acquire E P start s3 of (r, s4) \<Rightarrow> store_token E start r s4))))"

definition invalidate :: "string \<Rightarrow> pstate \<Rightarrow> pstate" where
  "invalidate tok s = (if token s = tok then s\<lparr>token := [], tokenDeadline := 0\<rparr> else s)"

section \<open>Looking up a record\<close>

definition lookup_target :: "BREGConfig \<Rightarrow> string" where
  "lookup_target b = trim_right (BaseURL b) (CHR ''/'') @ ''/v1/records/''
     @ url_escape EncodePathSegment (Route b) @ '':lookup''"

definition lookup_query :: "BREGConfig \<Rightarrow> string list \<Rightarrow> (string \<times> string) list" where
  "lookup_query b names = (''$select'', join '','' names)
     # (if AccessProfile b \<noteq> [] then [(''accessProfile'', AccessProfile b)] else [])"

definition lookup_body :: "BREGConfig \<Rightarrow> string \<Rightarrow> json" where
  "lookup_body b uid = JObj (canon_members
     [(''selector'', JStr (Selector b)), (''values'', JObj [(SelectorField b, JStr uid)])])"

text \<open>The request, or \<open>None\<close> when a URL does not parse.\<close>

definition lookup_request :: "BREGConfig \<Rightarrow> string \<Rightarrow> string \<Rightarrow> string list \<Rightarrow> http_request option" where
  "lookup_request b tok uid names = (case url_parse (lookup_target b) of
     None \<Rightarrow> None
   | Some u \<Rightarrow> new_request (url_string (u\<lparr>RawQuery := form_encode (lookup_query b names)\<rparr>))
       ''application/json'' (Some (''Bearer '' @ tok)) (marshal (lookup_body b uid)))"

text \<open>A response that is not 200: the error, and whether the token is dropped.\<close>

definition classify_problem :: "string \<Rightarrow> provider_error \<times> bool" where
  "classify_problem raw = (case decodeJSON problem_member [] raw of
     None \<Rightarrow> (ErrUnavailable, False)
   | Some code \<Rightarrow>
       if code = ''lookup.unresolved'' \<or> code = ''resource.not_found'' then (ErrSubjectDenied, False)
       else if code = ''authentication.refused'' then (ErrUnavailable, True)
       else (ErrUnavailable, False))"

text \<open>What a finished exchange means: \<open>tok\<close> is the token it was sent with.\<close>

definition lookup_answer :: "string \<Rightarrow> provider_error + int \<times> string \<Rightarrow> pstate \<Rightarrow> goobj io" where
  "lookup_answer tok r s = (case r of
     Inl _ \<Rightarrow> fails s
   | Inr (status, raw) \<Rightarrow>
       if status \<noteq> 200 then
         (case classify_problem raw of (e, drop_token) \<Rightarrow>
            (Inl e, if drop_token then invalidate tok s else s))
       else (case decodeJSON lookup_member None raw of
          Some (Some data) \<Rightarrow> (Inr data, s)
        | _ \<Rightarrow> fails s))"

definition lookup :: "env \<Rightarrow> provider \<Rightarrow> string \<Rightarrow> string list \<Rightarrow> pstate \<Rightarrow> goobj io" where
  "lookup E P uid names s =
     (if names = [] then (Inl ErrInvalidRequest, s)
      else case accessToken E P s of
        (Inl _, s1) \<Rightarrow> fails s1
      | (Inr tok, s1) \<Rightarrow>
          (case lookup_request (BREG (config P)) tok uid names of
             None \<Rightarrow> fails s1
           | Some rq \<Rightarrow>
               (case request E (config P) rq s1 of (r, s2) \<Rightarrow> lookup_answer tok r s2)))"

section \<open>The exchange\<close>

lemma request_state [simp]:
  "sent (snd (request E c rq s)) = sent s @ [rq]" "token (snd (request E c rq s)) = token s"
  "tokenDeadline (snd (request E c rq s)) = tokenDeadline s"
  "tick (snd (request E c rq s)) = Suc (tick s)"
  by (simp_all add: request_def Let_def split: http_outcome.splits)

lemma request_Inl: "fst (request E c rq s) = Inl e \<Longrightarrow> e = ErrUnavailable"
  by (auto simp: request_def Let_def split: http_outcome.splits if_splits)

text \<open>A delivered body is the whole body, read without an error and within the bound.\<close>

lemma request_Inr:
  "fst (request E c rq s) = Inr (status, raw) \<longleftrightarrow>
     env_http E (tick s) rq = HttpResponse status raw False \<and> length raw \<le> nat (MaxResponseBytes (HTTP c))"
  by (auto simp: request_def Let_def split: http_outcome.splits if_splits)

lemma request_cases:
  obtains (fail) s' where "request E c rq s = (Inl ErrUnavailable, s')"
      "sent s' = sent s @ [rq]" "token s' = token s" "tokenDeadline s' = tokenDeadline s"
      "tick s' = Suc (tick s)"
  | (ok) status raw s' where "request E c rq s = (Inr (status, raw), s')"
      "sent s' = sent s @ [rq]" "token s' = token s" "tokenDeadline s' = tokenDeadline s"
      "tick s' = Suc (tick s)" "env_http E (tick s) rq = HttpResponse status raw False"
      "length raw \<le> nat (MaxResponseBytes (HTTP c))"
proof -
  obtain r s' where R: "request E c rq s = (r, s')" by (cases "request E c rq s")
  have S: "sent s' = sent s @ [rq]" "token s' = token s" "tokenDeadline s' = tokenDeadline s"
    "tick s' = Suc (tick s)"
    using request_state [of E c rq s] by (simp_all add: R)
  show thesis
  proof (cases r)
    case (Inl e)
    then have "e = ErrUnavailable" using request_Inl [of E c rq s e] by (simp add: R)
    with R S fail show thesis by (simp add: Inl)
  next
    case (Inr p)
    with R request_Inr [of E c rq s "fst p" "snd p"]
    have "env_http E (tick s) rq = HttpResponse (fst p) (snd p) False"
      "length (snd p) \<le> nat (MaxResponseBytes (HTTP c))" by simp_all
    with R S ok [of "fst p" "snd p"] show thesis by (simp add: Inr)
  qed
qed

lemma new_request_Some:
  "new_request u ct au b = Some rq \<longleftrightarrow> url_parse u \<noteq> None \<and>
     rq = \<lparr>rq_url = u, rq_content_type = ct, rq_accept = ''application/json'',
           rq_authorization = au, rq_body = b\<rparr>"
  by (auto simp: new_request_def split: option.splits)

section \<open>What an accepted token is\<close>

text \<open>Visible ASCII, not empty, at most 64 KiB: it cannot break the header it is put in.\<close>

definition token_text :: "string \<Rightarrow> bool" where
  "token_text tok \<longleftrightarrow> tok \<noteq> [] \<and> length tok \<le> 64 * 1024
     \<and> list_all (\<lambda>c. 33 \<le> byte c \<and> byte c \<le> 126) tok"

lemma token_accepted_text: "token_accepted t out \<Longrightarrow> token_text (AccessToken out)"
  using runes_all_ascii [of "\<lambda>r. \<not> (r \<le> 32 \<or> 127 \<le> r)" "AccessToken out"]
  by (auto simp: token_accepted_def token_text_def list_all_iff)

lemma token_accepted_lifetime:
  assumes "token_accepted t out" and "1 \<le> TokenCacheMaxSeconds t"
  shows "0 < token_lifetime t out" and "token_lifetime t out \<le> TokenCacheMaxSeconds t * second"
  using assms by (auto simp: token_accepted_def token_lifetime_def second_def)

definition is_token_request :: "provider \<Rightarrow> http_request \<Rightarrow> bool" where
  "is_token_request P rq \<longleftrightarrow> rq_url rq = TokenEndpoint (TokenClient (config P))
     \<and> rq_authorization rq = None
     \<and> (\<exists>a. rq_body rq = form_encode (token_form (TokenClient (config P)) a))"

definition is_lookup_request :: "provider \<Rightarrow> string \<Rightarrow> string list \<Rightarrow> http_request \<Rightarrow> bool" where
  "is_lookup_request P uid names rq \<longleftrightarrow>
     (\<exists>tok. token_text tok \<and> lookup_request (BREG (config P)) tok uid names = Some rq)"

lemma acquire_frame:
  assumes "acquire E P start s = (r, s')"
  shows "token s' = token s" and "tokenDeadline s' = tokenDeadline s" and "tick s < tick s'"
    and "\<exists>ts. sent s' = sent s @ ts \<and> length ts \<le> 1 \<and> list_all (is_token_request P) ts"
    and "r = Inl e \<Longrightarrow> e = ErrUnavailable"
proof -
  let ?t = "TokenClient (config P)" and ?s1 = "s\<lparr>tick := Suc (tick s)\<rparr>"
  have "token s' = token s \<and> tokenDeadline s' = tokenDeadline s \<and> tick s < tick s'
      \<and> (\<exists>ts. sent s' = sent s @ ts \<and> length ts \<le> 1 \<and> list_all (is_token_request P) ts)
      \<and> (\<forall>e. r = Inl e \<longrightarrow> e = ErrUnavailable)"
  proof (cases "assertion (env_signer E (tick s)) (key P) (rand_read E (tick s) 24) (tc_ClientID ?t)
               (AssertionAudience ?t) (unix start) (unix start + AssertionTTLSeconds ?t)")
    case (Inl e)
    then show ?thesis using assms by (auto simp: acquire_def Let_def)
  next
    case (Inr a)
    note A = this
    show ?thesis
    proof (cases "new_request (TokenEndpoint ?t) ''application/x-www-form-urlencoded'' None
                     (form_encode (token_form ?t a))")
      case None
      then show ?thesis using assms A by (auto simp: acquire_def Let_def)
    next
      case (Some rq)
      have rq: "is_token_request P rq"
        using Some by (auto simp: new_request_Some is_token_request_def)
      show ?thesis
        by (rule request_cases [of E "config P" rq ?s1])
          (use assms A Some rq in \<open>auto simp: acquire_def Let_def split: if_splits option.splits
             intro!: exI [of _ "[rq]"]\<close>)
    qed
  qed
  then show "token s' = token s" "tokenDeadline s' = tokenDeadline s" "tick s < tick s'"
    "\<exists>ts. sent s' = sent s @ ts \<and> length ts \<le> 1 \<and> list_all (is_token_request P) ts"
    "r = Inl e \<Longrightarrow> e = ErrUnavailable"
    by blast+
qed

text \<open>A token comes from one request to the token endpoint, answered 200 with a good body.\<close>

lemma acquire_ok:
  assumes "acquire E P start s = (Inr (tok, life), s')"
  shows "\<exists>rq raw out. is_token_request P rq \<and> sent s' = sent s @ [rq]
      \<and> env_http E (Suc (tick s)) rq = HttpResponse 200 raw False
      \<and> decodeJSON token_member no_token raw = Some out \<and> token_accepted (TokenClient (config P)) out
      \<and> tok = AccessToken out \<and> life = token_lifetime (TokenClient (config P)) out"
proof -
  let ?t = "TokenClient (config P)" and ?s1 = "s\<lparr>tick := Suc (tick s)\<rparr>"
  obtain a where A: "assertion (env_signer E (tick s)) (key P) (rand_read E (tick s) 24) (tc_ClientID ?t)
               (AssertionAudience ?t) (unix start) (unix start + AssertionTTLSeconds ?t) = Inr a"
    using assms by (auto simp: acquire_def Let_def split: sum.splits)
  obtain rq where rq: "new_request (TokenEndpoint ?t) ''application/x-www-form-urlencoded'' None
                     (form_encode (token_form ?t a)) = Some rq"
    using assms A by (auto simp: acquire_def Let_def split: option.splits)
  then have good: "is_token_request P rq"
    by (auto simp: new_request_Some is_token_request_def)
  show ?thesis
    by (rule request_cases [of E "config P" rq ?s1])
      (use assms A rq good in \<open>auto simp: acquire_def Let_def split: if_splits option.splits\<close>)
qed

section \<open>The cache invariant\<close>

text \<open>
  What the cache holds can be sent, and expires no later than the configured maximum from
  now. The clock is taken to be monotone, as the time readings of Go's \<open>time.Now\<close> are.
\<close>

definition cache_ok :: "env \<Rightarrow> provider \<Rightarrow> pstate \<Rightarrow> bool" where
  "cache_ok E P s \<longleftrightarrow> (token s \<noteq> [] \<longrightarrow> token_text (token s) \<and>
     tokenDeadline s \<le> env_now E (tick s) + TokenCacheMaxSeconds (TokenClient (config P)) * second)"

lemma cache_ok_empty [simp]: "token s = [] \<Longrightarrow> cache_ok E P s"
  by (simp add: cache_ok_def)

lemma cache_ok_later:
  assumes "cache_ok E P s" and "mono (env_now E)" and "tick s \<le> tick s'"
    and "token s' = token s" and "tokenDeadline s' = tokenDeadline s"
  shows "cache_ok E P s'"
  using assms monoD [of "env_now E" "tick s" "tick s'"] by (force simp: cache_ok_def)

lemma invalidate_state [simp]:
  "sent (invalidate tok s) = sent s" "tick (invalidate tok s) = tick s"
  by (simp_all add: invalidate_def)

lemma invalidate_ok: "cache_ok E P s \<Longrightarrow> cache_ok E P (invalidate tok s)"
  by (simp add: invalidate_def)

lemma invalidate_gone: "tok \<noteq> [] \<Longrightarrow> token (invalidate tok s) \<noteq> tok"
  by (simp add: invalidate_def)

lemma token_fresh_cases:
  obtains (empty) "token s = []" "token_fresh E s = (False, s)"
  | (stale) s' where "token s \<noteq> []" "tokenDeadline s \<le> env_now E (tick s)"
      "token_fresh E s = (False, s')" "s' = s\<lparr>tick := Suc (tick s)\<rparr>"
  | (fresh) s' where "token s \<noteq> []" "env_now E (tick s) < tokenDeadline s"
      "token_fresh E s = (True, s')" "s' = s\<lparr>tick := Suc (tick s)\<rparr>"
proof (cases "token s = []")
  case True
  then show thesis by (intro empty) (simp_all add: token_fresh_def)
next
  case False
  then have "token_fresh E s = (env_now E (tick s) < tokenDeadline s, s\<lparr>tick := Suc (tick s)\<rparr>)"
    by (simp add: token_fresh_def now_def)
  with False stale fresh show thesis by (metis leI)
qed

lemma store_token_cases:
  obtains (failed) e where "r = Inl e" "store_token E start r s = (Inl e, s)"
  | (expired) tok life s' where "r = Inr (tok, life)" "start + life \<le> env_now E (tick s)"
      "store_token E start r s = (Inl ErrUnavailable, s')" "s' = s\<lparr>tick := Suc (tick s)\<rparr>"
  | (stored) tok life s' where "r = Inr (tok, life)" "env_now E (tick s) < start + life"
      "store_token E start r s = (Inr tok, s')"
      "s' = s\<lparr>tick := Suc (tick s), token := tok, tokenDeadline := start + life\<rparr>"
proof (cases r)
  case (Inl e)
  then show thesis by (intro failed) (simp_all add: store_token_def)
next
  case (Inr p)
  obtain tok life where p: "p = (tok, life)" by (cases p)
  show thesis
  proof (cases "env_now E (tick s) < start + life")
    case True
    then show thesis using Inr p by (intro stored) (simp_all add: store_token_def Let_def now_def)
  next
    case False
    then have "start + life \<le> env_now E (tick s)" by simp
    with False Inr p show thesis by (intro expired) (auto simp: store_token_def Let_def now_def)
  qed
qed

text \<open>
  The three ways \<open>accessToken\<close> goes: it stops, it finds a live token, or it clears the
  cache and acquires.
\<close>

lemma accessToken_cases:
  obtains (cancelled) "env_ctx E (tick s) \<noteq> None"
      "accessToken E P s = (Inl ErrUnavailable, s\<lparr>tick := Suc (tick s)\<rparr>)"
  | (cached) s' where "env_ctx E (tick s) = None" "token s \<noteq> []"
      "env_now E (Suc (tick s)) < tokenDeadline s"
      "accessToken E P s = (Inr (token s), s')" "s' = s\<lparr>tick := Suc (Suc (tick s))\<rparr>"
  | (acquired) s1 r s2 where "env_ctx E (tick s) = None"
      "token s1 = []" "sent s1 = sent s" "tokenDeadline s1 = tokenDeadline s" "tick s < tick s1"
      "tick s1 \<le> tick s + 3"
      "acquire E P (env_now E (tick s1 - 1)) s1 = (r, s2)"
      "accessToken E P s = store_token E (env_now E (tick s1 - 1)) r s2"
      "token s = [] \<or> tokenDeadline s \<le> env_now E (Suc (tick s))"
proof (cases "env_ctx E (tick s) = None")
  case False
  then show thesis by (intro cancelled) (auto simp: accessToken_def ctx_done_def)
next
  case True
  note C = this
  let ?s = "s\<lparr>tick := Suc (tick s)\<rparr>"
  have acq: thesis if F: "token_fresh E ?s = (False, s')" and s': "sent s' = sent s"
    "tokenDeadline s' = tokenDeadline s" "tick s < tick s'" "tick s' \<le> tick s + 2"
    "token s = [] \<or> tokenDeadline s \<le> env_now E (Suc (tick s))" for s'
  proof -
    let ?s1 = "s'\<lparr>token := [], tick := Suc (tick s')\<rparr>"
    obtain r s2 where R: "acquire E P (env_now E (tick s')) ?s1 = (r, s2)"
      by (cases "acquire E P (env_now E (tick s')) ?s1")
    have "accessToken E P s = store_token E (env_now E (tick s')) r s2"
      using C F R by (simp add: accessToken_def ctx_done_def clear_token_def now_def)
    with acquired [of ?s1 r s2] C R s' show thesis by simp
  qed
  show thesis
  proof (cases rule: token_fresh_cases [of ?s E])
    case empty
    from acq [OF empty(2)] empty(1) show thesis by simp
  next
    case (stale s')
    from acq [OF stale(3)] stale(1,2,4) show thesis by simp
  next
    case (fresh s')
    then show thesis using C cached [of s'] by (simp add: accessToken_def ctx_done_def)
  qed
qed

lemma store_token_frame:
  assumes "store_token E start r s = (q, s')"
  shows "sent s' = sent s" and "tick s \<le> tick s'"
  using assms by (cases rule: store_token_cases [of r E start s]; auto)+

lemma accessToken_frame:
  assumes "accessToken E P s = (r, s')"
  shows "tick s < tick s'"
    and "\<exists>ts. sent s' = sent s @ ts \<and> length ts \<le> 1 \<and> list_all (is_token_request P) ts"
    and "r = Inl e \<Longrightarrow> e = ErrUnavailable"
proof -
  have "tick s < tick s' \<and> (\<exists>ts. sent s' = sent s @ ts \<and> length ts \<le> 1 \<and> list_all (is_token_request P) ts)
      \<and> (\<forall>e. r = Inl e \<longrightarrow> e = ErrUnavailable)"
  proof (cases rule: accessToken_cases [of E s P])
    case (acquired s1 q s2)
    note A = acquire_frame [OF acquired(7)]
    have S: "store_token E (env_now E (tick s1 - 1)) q s2 = (r, s')"
      using acquired(8) assms by simp
    have "\<forall>e. r = Inl e \<longrightarrow> e = ErrUnavailable"
      using S A(5) by (cases rule: store_token_cases [of q E "env_now E (tick s1 - 1)" s2]) auto
    then show ?thesis using store_token_frame [OF S] A(3,4) acquired(3,5) by simp
  qed (use assms in auto)
  then show "tick s < tick s'"
    "\<exists>ts. sent s' = sent s @ ts \<and> length ts \<le> 1 \<and> list_all (is_token_request P) ts"
    "r = Inl e \<Longrightarrow> e = ErrUnavailable"
    by blast+
qed

text \<open>
  A token that is returned is in the cache, live at some instant of the call; a call that
  fails after the context check leaves the cache empty.
\<close>

lemma accessToken_ok:
  assumes "accessToken E P s = (Inr tok, s')"
  shows "token s' = tok" and "\<exists>n. tick s < n \<and> n < tick s' \<and> env_now E n < tokenDeadline s'"
proof -
  have "token s' = tok \<and> (\<exists>n. tick s < n \<and> n < tick s' \<and> env_now E n < tokenDeadline s')"
  proof (cases rule: accessToken_cases [of E s P])
    case (cached s2)
    then show ?thesis using assms by (auto intro!: exI [of _ "Suc (tick s)"])
  next
    case (acquired s1 q s2)
    note A = acquire_frame [OF acquired(7)]
    have S: "store_token E (env_now E (tick s1 - 1)) q s2 = (Inr tok, s')"
      using acquired(8) assms by simp
    then show ?thesis using A(3) acquired(5)
      by (cases rule: store_token_cases [of q E "env_now E (tick s1 - 1)" s2])
        (auto intro!: exI [of _ "tick s2"])
  qed (use assms in auto)
  then show "token s' = tok" "\<exists>n. tick s < n \<and> n < tick s' \<and> env_now E n < tokenDeadline s'"
    by blast+
qed

lemma acquire_nonempty: "acquire E P start s = (Inr (tok, life), s') \<Longrightarrow> token_text tok"
  using acquire_ok [of E P start s tok life s'] token_accepted_text by blast

lemma accessToken_nonempty:
  assumes "accessToken E P s = (Inr tok, s')"
  shows "tok \<noteq> []"
proof (cases rule: accessToken_cases [of E s P])
  case (acquired s1 q s2)
  have S: "store_token E (env_now E (tick s1 - 1)) q s2 = (Inr tok, s')"
    using acquired(8) assms by simp
  then show ?thesis using acquired(7)
    by (cases rule: store_token_cases [of q E "env_now E (tick s1 - 1)" s2])
      (auto dest!: acquire_nonempty simp: token_text_def)
qed (use assms in auto)

text \<open>With nothing cached a call that is not cancelled acquires.\<close>

lemma accessToken_empty:
  assumes "token s = []" and "env_ctx E (tick s) = None"
  shows "accessToken E P s = (case acquire E P (env_now E (tick s + 1)) (s\<lparr>tick := tick s + 2\<rparr>) of
    (r, s4) \<Rightarrow> store_token E (env_now E (tick s + 1)) r s4)"
proof -
  have "clear_token (s\<lparr>tick := Suc (tick s)\<rparr>) = s\<lparr>tick := Suc (tick s)\<rparr>"
    using assms(1) by (cases s) (simp add: clear_token_def)
  then show ?thesis using assms by (simp add: accessToken_def ctx_done_def token_fresh_def now_def)
qed

lemma accessToken_failed:
  assumes "accessToken E P s = (Inl e, s')" and "env_ctx E (tick s) = None"
  shows "token s' = []"
proof (cases rule: accessToken_cases [of E s P])
  case (acquired s1 q s2)
  note A = acquire_frame [OF acquired(7)]
  have S: "store_token E (env_now E (tick s1 - 1)) q s2 = (Inl e, s')"
    using acquired(8) assms by simp
  then show ?thesis using A(1) acquired(2)
    by (cases rule: store_token_cases [of q E "env_now E (tick s1 - 1)" s2]) auto
qed (use assms in auto)

lemma accessToken_cache_ok:
  assumes "accessToken E P s = (r, s')" and "cache_ok E P s" and mono: "mono (env_now E)"
    and cap: "1 \<le> TokenCacheMaxSeconds (TokenClient (config P))"
  shows "cache_ok E P s'"
proof (cases rule: accessToken_cases [of E s P])
  case cancelled
  then show ?thesis using assms(1,2) mono by (auto elim!: cache_ok_later)
next
  case (cached s2)
  then show ?thesis using assms(1,2) mono by (auto elim!: cache_ok_later)
next
  case (acquired s1 q s2)
  note A = acquire_frame [OF acquired(7)]
  have S: "store_token E (env_now E (tick s1 - 1)) q s2 = (r, s')"
    using acquired(8) assms(1) by simp
  show ?thesis
  proof (cases rule: store_token_cases [of q E "env_now E (tick s1 - 1)" s2])
    case (stored tok life s3)
    obtain out where out: "token_accepted (TokenClient (config P)) out" "tok = AccessToken out"
      "life = token_lifetime (TokenClient (config P)) out"
      using acquire_ok [of E P "env_now E (tick s1 - 1)" s1 tok life s2] acquired(7) stored(1)
      by blast
    have s': "token s' = tok" "tokenDeadline s' = env_now E (tick s1 - 1) + life"
      "tick s' = Suc (tick s2)" using S stored by simp_all
    have "env_now E (tick s1 - 1) \<le> env_now E (tick s')"
      using mono A(3) s'(3) by (intro monoD [of "env_now E"]) simp_all
    then show ?thesis
      using s' out token_accepted_text [OF out(1)] token_accepted_lifetime [OF out(1) cap]
      by (simp add: cache_ok_def)
  qed (use S A(1) acquired(2) in auto)
qed

section \<open>The lookup\<close>

lemma classify_problem_error:
  "fst (classify_problem raw) = ErrSubjectDenied \<longleftrightarrow>
     decodeJSON problem_member [] raw \<in> {Some ''lookup.unresolved'', Some ''resource.not_found''}"
  "fst (classify_problem raw) \<in> {ErrSubjectDenied, ErrUnavailable}"
  "snd (classify_problem raw) \<longleftrightarrow>
     decodeJSON problem_member [] raw = Some ''authentication.refused''"
  by (auto simp: classify_problem_def split: option.splits)

lemma lookup_answer_state:
  assumes "lookup_answer tok r s = (q, s')"
  shows "sent s' = sent s" and "tick s' = tick s" and "s' = s \<or> s' = invalidate tok s"
    and "q = Inl e \<Longrightarrow> e \<in> {ErrSubjectDenied, ErrUnavailable}"
proof -
  have "(s' = s \<or> s' = invalidate tok s) \<and> (\<forall>e. q = Inl e \<longrightarrow> e \<in> {ErrSubjectDenied, ErrUnavailable})"
    using assms classify_problem_error(2) [of "snd (projr r)"]
    by (auto simp: lookup_answer_def split: sum.splits prod.splits if_splits option.splits)
  then show "s' = s \<or> s' = invalidate tok s" "sent s' = sent s" "tick s' = tick s"
    "q = Inl e \<Longrightarrow> e \<in> {ErrSubjectDenied, ErrUnavailable}"
    by auto
qed

lemma lookup_cases:
  assumes "lookup E P uid names s = (r, s')"
  obtains (empty) "names = []" "r = Inl ErrInvalidRequest" "s' = s"
  | (no_token) e where "names \<noteq> []" "accessToken E P s = (Inl e, s')" "r = Inl ErrUnavailable"
  | (no_request) tok where "names \<noteq> []" "accessToken E P s = (Inr tok, s')" "r = Inl ErrUnavailable"
      "lookup_request (BREG (config P)) tok uid names = None"
  | (asked) tok s1 rq q s2 where "names \<noteq> []" "accessToken E P s = (Inr tok, s1)"
      "lookup_request (BREG (config P)) tok uid names = Some rq"
      "request E (config P) rq s1 = (q, s2)" "lookup_answer tok q s2 = (r, s')"
proof (cases "names = []")
  case True
  then show thesis using assms empty by (simp add: lookup_def)
next
  case False
  note N = this
  obtain a s1 where A: "accessToken E P s = (a, s1)" by (cases "accessToken E P s")
  show thesis
  proof (cases a)
    case (Inl e)
    then show thesis using assms A N no_token by (simp add: lookup_def)
  next
    case (Inr tok)
    show thesis
    proof (cases "lookup_request (BREG (config P)) tok uid names")
      case None
      then show thesis using assms A N Inr no_request by (simp add: lookup_def)
    next
      case (Some rq)
      obtain q s2 where R: "request E (config P) rq s1 = (q, s2)" by (cases "request E (config P) rq s1")
      then show thesis using assms A N Inr Some asked [of tok s1 rq q s2] by (simp add: lookup_def)
    qed
  qed
qed

text \<open>
  One call sends at most one token request and then at most one lookup, and no other
  request: a refused or failed lookup is not replayed.
\<close>

lemma lookup_frame:
  assumes "lookup E P uid names s = (r, s')" and ok: "cache_ok E P s" and mono: "mono (env_now E)"
    and cap: "1 \<le> TokenCacheMaxSeconds (TokenClient (config P))"
  shows "cache_ok E P s'" and "tick s \<le> tick s'"
    and "\<exists>ts ls. sent s' = sent s @ ts @ ls \<and> length ts \<le> 1 \<and> length ls \<le> 1
       \<and> list_all (is_token_request P) ts \<and> list_all (is_lookup_request P uid names) ls"
proof -
  have "cache_ok E P s' \<and> tick s \<le> tick s'
      \<and> (\<exists>ts ls. sent s' = sent s @ ts @ ls \<and> length ts \<le> 1 \<and> length ls \<le> 1
       \<and> list_all (is_token_request P) ts \<and> list_all (is_lookup_request P uid names) ls)"
    using assms(1)
  proof (cases rule: lookup_cases)
    case empty
    then show ?thesis using ok by (auto intro!: exI [of _ "[]"])
  next
    case (no_token e)
    obtain ts where "sent s' = sent s @ ts" "length ts \<le> 1" "list_all (is_token_request P) ts"
      using accessToken_frame(2) [OF no_token(2)] by blast
    then show ?thesis using accessToken_cache_ok [OF no_token(2) ok mono cap]
        accessToken_frame(1) [OF no_token(2)]
      by (intro conjI exI [of _ ts] exI [of _ "[]"]) simp_all
  next
    case (no_request tok)
    obtain ts where "sent s' = sent s @ ts" "length ts \<le> 1" "list_all (is_token_request P) ts"
      using accessToken_frame(2) [OF no_request(2)] by blast
    then show ?thesis using accessToken_cache_ok [OF no_request(2) ok mono cap]
        accessToken_frame(1) [OF no_request(2)]
      by (intro conjI exI [of _ ts] exI [of _ "[]"]) simp_all
  next
    case (asked tok s1 rq q s2)
    have c1: "cache_ok E P s1" by (rule accessToken_cache_ok [OF asked(2) ok mono cap])
    have s2: "sent s2 = sent s1 @ [rq]" "token s2 = token s1" "tokenDeadline s2 = tokenDeadline s1"
      "tick s2 = Suc (tick s1)"
      using request_state [of E "config P" rq s1] asked(4) by simp_all
    have c2: "cache_ok E P s2" using cache_ok_later [OF c1 mono] s2 by simp
    note ans = lookup_answer_state [OF asked(5)]
    have c': "cache_ok E P s'" using ans(3) c2 invalidate_ok [OF c2] by blast
    obtain ts where ts: "sent s1 = sent s @ ts" "length ts \<le> 1" "list_all (is_token_request P) ts"
      using accessToken_frame(2) [OF asked(2)] by blast
    from asked(3) have "is_lookup_request P uid names rq" if "tok \<noteq> []"
      using c1 accessToken_ok(1) [OF asked(2)] that
      by (auto simp: is_lookup_request_def cache_ok_def)
    moreover have "tok \<noteq> []"
      using asked(2) by (rule accessToken_nonempty)
    ultimately show ?thesis
      using c' ans(1,2) s2 ts accessToken_frame(1) [OF asked(2)]
      by (intro conjI exI [of _ ts] exI [of _ "[rq]"]) simp_all
  qed
  then show "cache_ok E P s'" "tick s \<le> tick s'"
    "\<exists>ts ls. sent s' = sent s @ ts @ ls \<and> length ts \<le> 1 \<and> length ls \<le> 1
       \<and> list_all (is_token_request P) ts \<and> list_all (is_lookup_request P uid names) ls"
    by blast+
qed

text \<open>A record is what the one lookup, answered 200, holds under \<open>data.domainData\<close>.\<close>

lemma lookup_ok:
  assumes "lookup E P uid names s = (Inr data, s')"
  shows "names \<noteq> [] \<and> (\<exists>rq raw before. token s' \<noteq> []
      \<and> lookup_request (BREG (config P)) (token s') uid names = Some rq \<and> sent s' = before @ [rq]
      \<and> env_http E (tick s' - 1) rq = HttpResponse 200 raw False
      \<and> int (length raw) \<le> max 0 (MaxResponseBytes (HTTP (config P)))
      \<and> decodeJSON lookup_member None raw = Some (Some data)) \<and> tick s < tick s' - 1"
  using assms
proof (cases rule: lookup_cases)
  case (asked tok s1 rq q s2)
  have s2: "sent s2 = sent s1 @ [rq]" "token s2 = token s1" "tick s2 = Suc (tick s1)"
    using request_state [of E "config P" rq s1] asked(4) by simp_all
  obtain raw where raw: "q = Inr (200, raw)" "s' = s2" "decodeJSON lookup_member None raw = Some (Some data)"
    using asked(5) by (auto simp: lookup_answer_def split: sum.splits prod.splits if_splits option.splits)
  have "env_http E (tick s1) rq = HttpResponse 200 raw False"
    "length raw \<le> nat (MaxResponseBytes (HTTP (config P)))"
    using request_Inr [of E "config P" rq s1 200 raw] asked(4) raw(1) by simp_all
  with asked raw s2 accessToken_ok(1) [OF asked(2)] accessToken_nonempty [OF asked(2)] accessToken_frame(1) [OF asked(2)]
  show ?thesis by (intro conjI exI [of _ rq] exI [of _ raw] exI [of _ "sent s1"]) auto
qed simp_all

text \<open>
  The subject is denied only by an answer of the registry that is not 200 and names one of
  the two codes; the cache is dropped only by \<open>authentication.refused\<close>.
\<close>

lemma lookup_denied:
  assumes "lookup E P uid names s = (Inl ErrSubjectDenied, s')"
  shows "\<exists>tok s1 rq status raw. accessToken E P s = (Inr tok, s1)
      \<and> lookup_request (BREG (config P)) tok uid names = Some rq \<and> sent s' = sent s1 @ [rq]
      \<and> env_http E (tick s1) rq = HttpResponse status raw False \<and> status \<noteq> 200
      \<and> decodeJSON problem_member [] raw \<in> {Some ''lookup.unresolved'', Some ''resource.not_found''}"
  using assms
proof (cases rule: lookup_cases)
  case (asked tok s1 rq q s2)
  obtain status raw where raw: "q = Inr (status, raw)" "status \<noteq> 200"
      "fst (classify_problem raw) = ErrSubjectDenied"
    using asked(5) by (auto simp: lookup_answer_def split: sum.splits prod.splits if_splits option.splits)
  have "env_http E (tick s1) rq = HttpResponse status raw False"
    using request_Inr [of E "config P" rq s1 status raw] asked(4) raw(1) by simp
  moreover have "sent s' = sent s1 @ [rq]"
    using lookup_answer_state(1) [OF asked(5)] request_state(1) [of E "config P" rq s1] asked(4) by simp
  ultimately show ?thesis using asked(2,3) raw(2,3) classify_problem_error(1) [of raw] by blast
qed simp_all

lemma lookup_errors:
  assumes "lookup E P uid names s = (Inl e, s')"
  shows "e = ErrInvalidRequest \<longleftrightarrow> names = []" and "e \<in> {ErrInvalidRequest, ErrSubjectDenied, ErrUnavailable}"
  using assms by (cases rule: lookup_cases; auto dest: lookup_answer_state(4))+

end
