(* ===== verification/TokenCache.thy ===== *)
theory TokenCache
  imports Http
begin

text \<open>
  \<open>accessToken\<close> and \<open>invalidate\<close> of \<open>provider/http.go\<close> called by any number of goroutines:
  a step relation whose steps are the critical sections and the blocking points of the
  code. The token client behind it is an argument, with the contract the cache needs as the
  locale \<open>token_client\<close>, which \<open>acquire\<close> satisfies.
\<close>

section \<open>The goroutines\<close>

text \<open>\<open>tokenFlight\<close>: its channel is open, or closed with the outcome of the acquisition.\<close>

datatype tokenFlight = Flying | Landed "provider_error option"

text \<open>
  Where a goroutine is: outside, at the head of the loop, past the context check and about
  to lock, waiting for a flight, past the first critical section with a flight of its own,
  about to acquire for it, back from acquiring and about to lock, or returned.
\<close>

datatype phase =
  Idle | Calling | Entering | Waiting nat | Leading nat | Acquiring nat int
| Fetched nat int "provider_error + string \<times> int" | Returned "provider_error + string"

record machine =
  cache :: pstate
  acquiring :: "nat option"
  flights :: "tokenFlight list"
  phases :: "nat \<Rightarrow> phase"

abbreviation goto :: "machine \<Rightarrow> nat \<Rightarrow> phase \<Rightarrow> machine" where
  "goto w t p \<equiv> w\<lparr>phases := (phases w)(t := p)\<rparr>"

definition flight_error :: "provider_error + string \<Rightarrow> provider_error option" where
  "flight_error q = (case q of Inl e \<Rightarrow> Some e | Inr _ \<Rightarrow> None)"

type_synonym token_client = "int \<Rightarrow> pstate \<Rightarrow> (string \<times> int) io"

text \<open>
  \<open>cx t\<close> is the context goroutine \<open>t\<close> calls with. A new flight is the next one in the list
  of flights. The acquisition itself runs outside the lock and reads nothing of the cache.
\<close>

inductive tc_step :: "env \<Rightarrow> token_client \<Rightarrow> (nat \<Rightarrow> nat \<Rightarrow> ctx_error option) \<Rightarrow> machine \<Rightarrow> machine \<Rightarrow> bool"
  for E :: env and acq :: token_client and cx :: "nat \<Rightarrow> nat \<Rightarrow> ctx_error option" where
  call: "phases w t = Idle \<Longrightarrow> tc_step E acq cx w (goto w t Calling)"
| leave: "phases w t = Returned q \<Longrightarrow> tc_step E acq cx w (goto w t Idle)"
| stop: "phases w t = Calling \<Longrightarrow> cx t (tick (cache w)) \<noteq> None
    \<Longrightarrow> tc_step E acq cx w (goto (w\<lparr>cache := cache w\<lparr>tick := Suc (tick (cache w))\<rparr>\<rparr>) t
          (Returned (Inl ErrUnavailable)))"
| enter: "phases w t = Calling \<Longrightarrow> cx t (tick (cache w)) = None
    \<Longrightarrow> tc_step E acq cx w (goto (w\<lparr>cache := cache w\<lparr>tick := Suc (tick (cache w))\<rparr>\<rparr>) t Entering)"
| hit: "phases w t = Entering \<Longrightarrow> token_fresh E (cache w) = (True, s)
    \<Longrightarrow> tc_step E acq cx w (goto (w\<lparr>cache := s\<rparr>) t (Returned (Inr (token s))))"
| wait: "phases w t = Entering \<Longrightarrow> token_fresh E (cache w) = (False, s) \<Longrightarrow> acquiring w = Some f
    \<Longrightarrow> tc_step E acq cx w (goto (w\<lparr>cache := clear_token s\<rparr>) t (Waiting f))"
| lead: "phases w t = Entering \<Longrightarrow> token_fresh E (cache w) = (False, s) \<Longrightarrow> acquiring w = None
    \<Longrightarrow> tc_step E acq cx w (goto (w\<lparr>cache := clear_token s, acquiring := Some (length (flights w)),
          flights := flights w @ [Flying]\<rparr>) t (Leading (length (flights w))))"
| clock: "phases w t = Leading f \<Longrightarrow> now E (cache w) = (start, s)
    \<Longrightarrow> tc_step E acq cx w (goto (w\<lparr>cache := s\<rparr>) t (Acquiring f start))"
| fetch: "phases w t = Acquiring f start \<Longrightarrow> acq start (cache w) = (r, s)
    \<Longrightarrow> tc_step E acq cx w (goto (w\<lparr>cache := s\<rparr>) t (Fetched f start r))"
| publish: "phases w t = Fetched f start r \<Longrightarrow> store_token E start r (cache w) = (q, s)
    \<Longrightarrow> tc_step E acq cx w (goto (w\<lparr>cache := s, acquiring := None,
          flights := (flights w)[f := Landed (flight_error q)]\<rparr>) t (Returned q))"
| wake_failed: "phases w t = Waiting f \<Longrightarrow> flights w ! f = Landed (Some e)
    \<Longrightarrow> tc_step E acq cx w (goto w t (Returned (Inl e)))"
| wake: "phases w t = Waiting f \<Longrightarrow> flights w ! f = Landed None
    \<Longrightarrow> tc_step E acq cx w (goto w t Calling)"
| abandon: "phases w t = Waiting f \<Longrightarrow> cx t (tick (cache w)) \<noteq> None
    \<Longrightarrow> tc_step E acq cx w (goto (w\<lparr>cache := cache w\<lparr>tick := Suc (tick (cache w))\<rparr>\<rparr>) t
          (Returned (Inl ErrUnavailable)))"
| drop_token: "tc_step E acq cx w (w\<lparr>cache := invalidate tok (cache w)\<rparr>)"
| pass: "tc_step E acq cx w (w\<lparr>cache := cache w\<lparr>tick := tick (cache w) + k\<rparr>\<rparr>)"

text \<open>A provider \<open>New\<close> made: nothing cached, nothing sent, nobody inside.\<close>

definition tc_start :: "nat \<Rightarrow> machine" where
  "tc_start n = \<lparr>cache = \<lparr>token = [], tokenDeadline = 0, tick = n, sent = []\<rparr>, acquiring = None,
     flights = [], phases = (\<lambda>_. Idle)\<rparr>"

inductive tc_reachable ::
    "env \<Rightarrow> token_client \<Rightarrow> (nat \<Rightarrow> nat \<Rightarrow> ctx_error option) \<Rightarrow> machine \<Rightarrow> bool"
  for E :: env and acq :: token_client and cx :: "nat \<Rightarrow> nat \<Rightarrow> ctx_error option" where
  init: "tc_reachable E acq cx (tc_start n)"
| more: "tc_reachable E acq cx w \<Longrightarrow> tc_step E acq cx w w' \<Longrightarrow> tc_reachable E acq cx w'"

section \<open>The invariant\<close>

text \<open>The flight a goroutine leads, if it leads one.\<close>

fun leads :: "phase \<Rightarrow> nat option" where
  "leads (Leading f) = Some f"
| "leads (Acquiring f start) = Some f"
| "leads (Fetched f start r) = Some f"
| "leads _ = None"

definition single_flight :: "machine \<Rightarrow> bool" where
  "single_flight w \<longleftrightarrow> (case acquiring w of
     None \<Rightarrow> (\<forall>t. leads (phases w t) = None)
   | Some f \<Rightarrow> (\<exists>t. leads (phases w t) = Some f \<and> (\<forall>u. u \<noteq> t \<longrightarrow> leads (phases w u) = None)))"

definition flights_ok :: "machine \<Rightarrow> bool" where
  "flights_ok w \<longleftrightarrow> (\<forall>f < length (flights w). flights w ! f = Flying \<longleftrightarrow> acquiring w = Some f)
     \<and> (\<forall>f. acquiring w = Some f \<longrightarrow> f < length (flights w))
     \<and> (\<forall>t f. phases w t = Waiting f \<longrightarrow> f < length (flights w))"

definition cleared :: "machine \<Rightarrow> bool" where
  "cleared w \<longleftrightarrow> (acquiring w \<noteq> None \<longrightarrow> token (cache w) = [])"

text \<open>Requests sent: one for each flight, and none yet for the one that is about to fetch.\<close>

fun before_fetch :: "phase \<Rightarrow> bool" where
  "before_fetch (Leading f) = True"
| "before_fetch (Acquiring f start) = True"
| "before_fetch _ = False"

definition unfetched :: "machine \<Rightarrow> bool" where
  "unfetched w \<longleftrightarrow> (\<exists>t. before_fetch (phases w t))"

definition frugal :: "machine \<Rightarrow> bool" where
  "frugal w \<longleftrightarrow> length (sent (cache w)) + (if unfetched w then 1 else 0) \<le> length (flights w)"

lemma leads_goto: "leads (phases (goto w t p) u) = (if u = t then leads p else leads (phases w u))"
  by simp

lemma single_flight_same:
  assumes "single_flight w" and "acquiring w' = acquiring w"
    and "\<And>u. leads (phases w' u) = leads (phases w u)"
  shows "single_flight w'"
  using assms by (cases "acquiring w") (simp_all add: single_flight_def)

lemma single_flight_leader:
  assumes "single_flight w" and "leads (phases w t) = Some f"
  shows "acquiring w = Some f" and "u \<noteq> t \<Longrightarrow> leads (phases w u) = None"
proof -
  obtain t' where T: "acquiring w \<noteq> None" "leads (phases w t') = acquiring w"
    "\<And>u. u \<noteq> t' \<Longrightarrow> leads (phases w u) = None"
    using assms by (cases "acquiring w") (auto simp: single_flight_def)
  then have "t = t'" using assms(2) by force
  with T assms(2) show "acquiring w = Some f" "u \<noteq> t \<Longrightarrow> leads (phases w u) = None" by auto
qed

lemma step_single_flight:
  assumes "tc_step E acq cx w w'" and "single_flight w"
  shows "single_flight w'"
  using assms(1)
proof (cases rule: tc_step.cases)
  case (lead t s)
  then have "leads (phases w u) = None" for u using assms(2) by (simp add: single_flight_def)
  then show ?thesis using lead by (auto simp: single_flight_def intro!: exI [of _ t])
next
  case (publish t f start r q s)
  then have "leads (phases w u) = None" if "u \<noteq> t" for u
    using single_flight_leader(2) [OF assms(2), of t f u] that by simp
  then show ?thesis using publish by (simp add: single_flight_def)
qed (rule single_flight_same [OF assms(2)], simp, simp)+

lemma store_token_frame2:
  assumes "store_token E start r s = (q, s')"
  shows "flight_error q \<noteq> None \<Longrightarrow> token s' = token s"
  using assms by (cases rule: store_token_cases [of r E start s]) (auto simp: flight_error_def)

lemma token_fresh_token: "token (snd (token_fresh E s)) = token s"
  by (simp add: token_fresh_def split: prod.splits) (simp add: now_def)

lemma token_fresh_sent: "sent (snd (token_fresh E s)) = sent s"
  by (simp add: token_fresh_def now_def)

lemma token_fresh_tick: "tick s \<le> tick (snd (token_fresh E s))"
  by (simp add: token_fresh_def now_def)

lemma step_flights_ok:
  assumes "tc_step E acq cx w w'" and "single_flight w" and "flights_ok w"
  shows "flights_ok w'"
  using assms(1)
proof (cases rule: tc_step.cases)
  case (wait t s f)
  then show ?thesis using assms(3) by (auto simp: flights_ok_def)
next
  case (lead t s)
  then show ?thesis using assms(3)
    by (auto simp: flights_ok_def nth_append less_Suc_eq)
next
  case (publish t f start r q s)
  then have "acquiring w = Some f" using single_flight_leader(1) [OF assms(2), of t f] by simp
  then show ?thesis using publish assms(3) by (auto simp: flights_ok_def nth_list_update)
qed (use assms(3) in \<open>auto simp: flights_ok_def\<close>)

text \<open>A step that neither begins nor ends a fetch, and sends nothing.\<close>

lemma frugal_same:
  assumes "frugal w" and "phases w' = (phases w)(t := p)"
    and "before_fetch (phases w t) = before_fetch p"
    and "sent (cache w') = sent (cache w)" and "length (flights w') = length (flights w)"
  shows "frugal w'"
proof -
  have "unfetched w' = unfetched w" unfolding unfetched_def assms(2)
    using assms(3) by (metis fun_upd_apply)
  then show ?thesis using assms(1,4,5) by (simp add: frugal_def)
qed

lemma frugal_quiet:
  assumes "frugal w"
  shows "sent c = sent (cache w) \<Longrightarrow> frugal (w\<lparr>cache := c\<rparr>)"
  using assms by (simp add: frugal_def unfetched_def)

section \<open>What the cache and the goroutines hold\<close>

definition cache_within :: "env \<Rightarrow> int \<Rightarrow> pstate \<Rightarrow> bool" where
  "cache_within E cap s \<longleftrightarrow> (token s \<noteq> [] \<longrightarrow> token_text (token s)
     \<and> tokenDeadline s \<le> env_now E (tick s) + cap)"

lemma cache_ok_within:
  "cache_ok E P = cache_within E (TokenCacheMaxSeconds (TokenClient (config P)) * second)"
  by (rule ext) (simp add: cache_ok_def cache_within_def)

fun phase_ok :: "env \<Rightarrow> int \<Rightarrow> nat \<Rightarrow> phase \<Rightarrow> bool" where
  "phase_ok E cap n (Acquiring f start) = (start \<le> env_now E n)"
| "phase_ok E cap n (Fetched f start (Inr (tok, life))) = (start \<le> env_now E n \<and> token_text tok \<and> life \<le> cap)"
| "phase_ok E cap n (Fetched f start (Inl e)) = (e = ErrUnavailable)"
| "phase_ok E cap n (Returned (Inr tok)) = token_text tok"
| "phase_ok E cap n (Returned (Inl e)) = (e = ErrUnavailable)"
| "phase_ok E cap n _ = True"

definition contents_ok :: "env \<Rightarrow> int \<Rightarrow> machine \<Rightarrow> bool" where
  "contents_ok E cap w \<longleftrightarrow> cache_within E cap (cache w)
     \<and> (\<forall>t. phase_ok E cap (tick (cache w)) (phases w t))
     \<and> (\<forall>e. Landed (Some e) \<in> set (flights w) \<longrightarrow> e = ErrUnavailable)"

lemma phase_ok_later:
  assumes "phase_ok E cap n p" and "mono (env_now E)" and "n \<le> m"
  shows "phase_ok E cap m p"
proof -
  have "env_now E n \<le> env_now E m" using assms(2,3) by (rule monoD)
  then show ?thesis using assms(1)
    by (cases "(E, cap, n, p)" rule: phase_ok.cases) auto
qed

lemma cache_within_later:
  assumes "cache_within E cap s" and "mono (env_now E)" and "tick s \<le> tick s'"
    and "token s' \<noteq> [] \<Longrightarrow> token s' = token s \<and> tokenDeadline s' = tokenDeadline s"
  shows "cache_within E cap s'"
  using assms monoD [of "env_now E" "tick s" "tick s'"] by (force simp: cache_within_def)

text \<open>A step that moves goroutine \<open>t\<close> to a phase that is in order.\<close>

lemma contents_move:
  assumes "contents_ok E cap w" and "mono (env_now E)" and "tick (cache w) \<le> tick (cache w')"
    and "phases w' = (phases w)(t := p)" and "phase_ok E cap (tick (cache w')) p"
    and "cache_within E cap (cache w')"
    and "\<forall>e. Landed (Some e) \<in> set (flights w') \<longrightarrow> e = ErrUnavailable"
  shows "contents_ok E cap w'"
  using assms phase_ok_later [OF _ assms(2,3)] by (auto simp: contents_ok_def)

section \<open>The contract of the token client\<close>

text \<open>
  It leaves the cache alone, sends at most one request, and a token it gives can be sent
  and has a lifetime within the cap.
\<close>

locale token_client =
  fixes acq :: token_client and cap :: int
  assumes client_frame: "acq start s = (r, s') \<Longrightarrow> token s' = token s \<and> tokenDeadline s' = tokenDeadline s
      \<and> tick s \<le> tick s' \<and> length (sent s') \<le> Suc (length (sent s))"
    and client_error: "acq start s = (Inl e, s') \<Longrightarrow> e = ErrUnavailable"
    and client_token: "acq start s = (Inr (tok, life), s') \<Longrightarrow> token_text tok \<and> life \<le> cap"
begin

lemma step_cleared:
  assumes "tc_step E acq cx w w'" and "single_flight w" and "cleared w"
  shows "cleared w'"
  using assms(1)
proof (cases rule: tc_step.cases)
  case (hit t s)
  then show ?thesis using assms(3) token_fresh_token [of E "cache w"] by (simp add: cleared_def)
next
  case (fetch t f start r s)
  then show ?thesis using assms(3) client_frame by (simp add: cleared_def)
next
  case (wait t s f)
  then show ?thesis by (simp add: cleared_def clear_token_def)
next
  case (lead t s)
  then show ?thesis by (auto simp: cleared_def clear_token_def)
next
  case (clock t f start s)
  then show ?thesis using assms(3) by (auto simp: cleared_def now_def)
qed (use assms(3) in \<open>auto simp: cleared_def invalidate_def\<close>)

lemma step_frugal:
  assumes "tc_step E acq cx w w'" and "single_flight w" and "frugal w"
  shows "frugal w'"
  using assms(1)
proof (cases rule: tc_step.cases)
  case (lead t s)
  have "leads (phases w u) = None" for u
    using assms(2) lead(4) by (simp add: single_flight_def)
  then have "\<not> before_fetch (phases w u)" for u
    by (metis before_fetch.elims(2) leads.simps(1,2) option.distinct(1))
  then have "\<not> unfetched w" by (simp add: unfetched_def)
  moreover have "sent (clear_token s) = sent (cache w)"
    using lead(3) token_fresh_sent [of E "cache w"] by (auto simp: clear_token_def)
  ultimately show ?thesis using lead assms(3) by (simp add: frugal_def)
next
  case (fetch t f start r s)
  have one: "unfetched w" using fetch(2) unfolding unfetched_def by (metis before_fetch.simps(2))
  have "leads (phases w u) = None" if "u \<noteq> t" for u
    using single_flight_leader(2) [OF assms(2), of t f u] fetch(2) that by simp
  then have "\<not> before_fetch (phases w u)" if "u \<noteq> t" for u
    using that by (metis before_fetch.elims(2) leads.simps(1,2) option.distinct(1))
  then have "\<not> unfetched w'" using fetch(1) by (simp add: unfetched_def)
  then show ?thesis using fetch assms(3) one client_frame [OF fetch(3)] by (simp add: frugal_def)
next
  case (hit t s)
  then show ?thesis using token_fresh_sent [of E "cache w"]
    by (intro frugal_same [OF assms(3), of _ t "phases w' t"]) simp_all
next
  case (wait t s f)
  then show ?thesis using token_fresh_sent [of E "cache w"]
    by (intro frugal_same [OF assms(3), of _ t "phases w' t"]) (simp_all add: clear_token_def)
next
  case (clock t f start s)
  then show ?thesis
    by (intro frugal_same [OF assms(3), of _ t "phases w' t"]) (auto simp: now_def)
next
  case (publish t f start r q s)
  then show ?thesis using store_token_frame(1) [OF publish(3)]
    by (intro frugal_same [OF assms(3), of _ t "phases w' t"]) simp_all
next
  case (drop_token tok)
  then show ?thesis by (simp add: frugal_quiet [OF assms(3)])
next
  case (pass k)
  then show ?thesis by (simp add: frugal_quiet [OF assms(3)])
next
  case (call t)
  then show ?thesis by (intro frugal_same [OF assms(3), of _ t "phases w' t"]) simp_all
next
  case (leave t q)
  then show ?thesis by (intro frugal_same [OF assms(3), of _ t "phases w' t"]) simp_all
next
  case (stop t)
  then show ?thesis by (intro frugal_same [OF assms(3), of _ t "phases w' t"]) simp_all
next
  case (enter t)
  then show ?thesis by (intro frugal_same [OF assms(3), of _ t "phases w' t"]) simp_all
next
  case (wake_failed t f e)
  then show ?thesis by (intro frugal_same [OF assms(3), of _ t "phases w' t"]) simp_all
next
  case (wake t f)
  then show ?thesis by (intro frugal_same [OF assms(3), of _ t "phases w' t"]) simp_all
next
  case (abandon t f)
  then show ?thesis by (intro frugal_same [OF assms(3), of _ t "phases w' t"]) simp_all
qed

lemma step_contents:
  assumes "tc_step E acq cx w w'" and "contents_ok E cap w" and mono: "mono (env_now E)"
    and ok: "flights_ok w"
  shows "contents_ok E cap w'"
proof -
  have C: "cache_within E cap (cache w)" and L: "\<forall>e. Landed (Some e) \<in> set (flights w) \<longrightarrow> e = ErrUnavailable"
    and P: "\<And>t. phase_ok E cap (tick (cache w)) (phases w t)"
    using assms(2) by (simp_all add: contents_ok_def)
  note move = contents_move [OF assms(2) mono]
  note later = cache_within_later [OF C mono]
  show ?thesis
    using assms(1)
  proof (cases rule: tc_step.cases)
    case (call t)
    then show ?thesis using C L by (intro move [of _ t Calling]) simp_all
  next
    case (leave t q)
    then show ?thesis using C L by (intro move [of _ t Idle]) simp_all
  next
    case (stop t)
    then show ?thesis using L by (intro move [of _ t "Returned (Inl ErrUnavailable)"]) (simp_all add: later)
  next
    case (enter t)
    then show ?thesis using L by (intro move [of _ t Entering]) (simp_all add: later)
  next
    case (hit t s)
    have s: "s = cache w\<lparr>tick := Suc (tick (cache w))\<rparr>" "token (cache w) \<noteq> []"
      using hit(3) by (cases rule: token_fresh_cases [of "cache w" E]; simp)+
    then have "token_text (token s)" using C by (simp add: cache_within_def)
    then show ?thesis using s hit(1) L
      by (intro move [of _ t "Returned (Inr (token s))"]) (simp_all add: later)
  next
    case (wait t s f)
    have "tick (cache w) \<le> tick s"
      using wait(3) token_fresh_tick [of "cache w" E] by simp
    then show ?thesis using wait(1) L
      by (intro move [of _ t "Waiting f"]) (simp_all add: clear_token_def cache_within_def)
  next
    case (lead t s)
    have "tick (cache w) \<le> tick s"
      using lead(3) token_fresh_tick [of "cache w" E] by simp
    then show ?thesis using lead(1) L
      by (intro move [of _ t "Leading (length (flights w))"]) (simp_all add: clear_token_def cache_within_def)
  next
    case (clock t f start s)
    have "start = env_now E (tick (cache w))" "s = cache w\<lparr>tick := Suc (tick (cache w))\<rparr>"
      using clock(3) by (simp_all add: now_def)
    then show ?thesis using clock(1) L monoD [OF mono, of "tick (cache w)" "Suc (tick (cache w))"]
      by (intro move [of _ t "Acquiring f start"]) (simp_all add: later)
  next
    case (fetch t f start r s)
    note F = client_frame [OF fetch(3)]
    have "start \<le> env_now E (tick (cache w))" using P [of t] fetch(2) by simp
    also have "\<dots> \<le> env_now E (tick s)" using F by (intro monoD [OF mono]) simp
    finally have "phase_ok E cap (tick s) (Fetched f start r)"
      using client_token [of start "cache w"] client_error [of start "cache w"] fetch(3)
      by (cases r) auto
    then show ?thesis using fetch(1) F L
      by (intro move [of _ t "Fetched f start r"]) (simp_all add: later)
  next
    case (publish t f start r q s)
    have pt: "phase_ok E cap (tick (cache w)) (Fetched f start r)" using P [of t] publish(2) by simp
    have "tick (cache w) \<le> tick s \<and> phase_ok E cap (tick s) (Returned q) \<and> cache_within E cap s
        \<and> (\<forall>e. flight_error q = Some e \<longrightarrow> e = ErrUnavailable)"
    proof (cases rule: store_token_cases [of r E start "cache w"])
      case (failed e)
      then show ?thesis using publish(3) pt C by (auto simp: flight_error_def)
    next
      case (expired tok life s2)
      then show ?thesis using publish(3) later [of s] by (auto simp: flight_error_def)
    next
      case (stored tok life s2)
      then have "start \<le> env_now E (Suc (tick (cache w)))"
        using pt monoD [OF mono, of "tick (cache w)" "Suc (tick (cache w))"] by simp
      then show ?thesis using stored publish(3) pt by (auto simp: flight_error_def cache_within_def)
    qed
    then show ?thesis using publish(1) L
      by (intro move [of _ t "Returned q"]) (auto dest!: set_update_subset_insert [THEN subsetD])
  next
    case (wake_failed t f e)
    have "f < length (flights w)" using ok wake_failed(2) by (simp add: flights_ok_def)
    then have "Landed (Some e) \<in> set (flights w)" using wake_failed(3) nth_mem by metis
    then show ?thesis using wake_failed(1) C L
      by (intro move [of _ t "Returned (Inl e)"]) simp_all
  next
    case (wake t f)
    then show ?thesis using C L by (intro move [of _ t Calling]) simp_all
  next
    case (abandon t f)
    then show ?thesis using L by (intro move [of _ t "Returned (Inl ErrUnavailable)"]) (simp_all add: later)
  next
    case (drop_token tok)
    have "cache_within E cap (invalidate tok (cache w))"
      using C by (simp add: invalidate_def cache_within_def)
    then show ?thesis using drop_token assms(2) by (simp add: contents_ok_def)
  next
    case (pass k)
    have "phase_ok E cap (tick (cache w) + k) (phases w t)" for t
      using phase_ok_later [OF P [of t] mono] by simp
    then show ?thesis using pass assms(2) later by (simp add: contents_ok_def)
  qed
qed

text \<open>Everything together, for every reachable state.\<close>

lemma reachable_inv:
  assumes "tc_reachable E acq cx w"
  shows "single_flight w \<and> flights_ok w \<and> cleared w \<and> frugal w"
  using assms
proof (induction rule: tc_reachable.induct)
  case (init n)
  show ?case by (simp add: tc_start_def single_flight_def flights_ok_def cleared_def frugal_def unfetched_def)
next
  case (more w w')
  then show ?case using step_single_flight step_flights_ok step_cleared step_frugal by blast
qed

lemma reachable_contents:
  assumes "tc_reachable E acq cx w" and "mono (env_now E)"
  shows "contents_ok E cap w"
  using assms(1)
proof (induction rule: tc_reachable.induct)
  case (init n)
  show ?case by (simp add: tc_start_def contents_ok_def cache_within_def)
next
  case (more w w')
  then show ?case using step_contents assms(2) reachable_inv by blast
qed

text \<open>A failed acquisition leaves nothing in the cache.\<close>

lemma publish_failed:
  assumes "tc_reachable E acq cx w" and "phases w t = Fetched f start r"
    and "store_token E start r (cache w) = (q, s)" and "flight_error q \<noteq> None"
  shows "token s = []"
proof -
  have inv: "single_flight w" "cleared w" using reachable_inv [OF assms(1)] by simp_all
  have "acquiring w = Some f" using single_flight_leader(1) [OF inv(1), of t f] assms(2) by simp
  then have "token (cache w) = []" using inv(2) by (simp add: cleared_def)
  then show ?thesis using store_token_frame2 [OF assms(3,4)] by simp
qed

end

section \<open>The provider's token client\<close>

abbreviation cache_cap :: "provider \<Rightarrow> int" where
  "cache_cap P \<equiv> TokenCacheMaxSeconds (TokenClient (config P)) * second"

lemma acquire_lifetime:
  assumes "acquire E P start s = (Inr (tok, life), s')"
  shows "token_text tok \<and> life \<le> cache_cap P"
  using acquire_ok [OF assms] acquire_nonempty [OF assms]
  by (auto simp: token_lifetime_def second_def)

interpretation provider_client: token_client "acquire E P" "cache_cap P" for E P
proof unfold_locales
  fix start s r s' e tok life
  show "acquire E P start s = (r, s') \<Longrightarrow> token s' = token s \<and> tokenDeadline s' = tokenDeadline s
      \<and> tick s \<le> tick s' \<and> length (sent s') \<le> Suc (length (sent s))"
    using acquire_frame [of E P start s r s'] by auto
  show "acquire E P start s = (Inl e, s') \<Longrightarrow> e = ErrUnavailable"
    by (rule acquire_frame(5)) simp_all
  show "acquire E P start s = (Inr (tok, life), s') \<Longrightarrow> token_text tok \<and> life \<le> cache_cap P"
    by (rule acquire_lifetime)
qed

text \<open>
  A goroutine that runs alone does what \<open>accessToken\<close> does: the step relation refines to
  the sequential definition.
\<close>

lemma alone:
  assumes "accessToken E P (cache w) = (r, s')" and "phases w t = Calling" and "acquiring w = None"
    and "cx t = env_ctx E"
  shows "\<exists>w'. (tc_step E (acquire E P) cx)\<^sup>*\<^sup>* w w' \<and> cache w' = s' \<and> acquiring w' = None
    \<and> phases w' = (phases w)(t := Returned r)"
proof (cases "env_ctx E (tick (cache w)) = None")
  case False
  then have r: "r = Inl ErrUnavailable" "s' = cache w\<lparr>tick := Suc (tick (cache w))\<rparr>"
    using assms(1) by (auto simp: accessToken_def ctx_done_def)
  have "tc_step E (acquire E P) cx w (goto (w\<lparr>cache := s'\<rparr>) t (Returned r))"
    unfolding r by (rule tc_step.stop) (use assms False in simp_all)
  then show ?thesis using assms(3) by (intro exI conjI r_into_rtranclp) (assumption, simp_all)
next
  case True
  define s1 where "s1 = cache w\<lparr>tick := Suc (tick (cache w))\<rparr>"
  define w1 where "w1 = goto (w\<lparr>cache := s1\<rparr>) t Entering"
  have step1: "tc_step E (acquire E P) cx w w1"
    unfolding w1_def s1_def by (rule tc_step.enter) (use assms True in simp_all)
  have w1: "cache w1 = s1" "acquiring w1 = None" "phases w1 t = Entering"
    "\<And>p. (phases w1)(t := p) = (phases w)(t := p)"
    using assms(3) by (simp_all add: w1_def)
  obtain fresh s2 where F: "token_fresh E s1 = (fresh, s2)" by (cases "token_fresh E s1")
  show ?thesis
  proof (cases fresh)
    case True
    with F assms(1) \<open>env_ctx E _ = None\<close> have r: "r = Inr (token s2)" "s' = s2"
      by (auto simp: accessToken_def ctx_done_def s1_def)
    let ?w2 = "goto (w1\<lparr>cache := s2\<rparr>) t (Returned (Inr (token s2)))"
    have "tc_step E (acquire E P) cx w1 ?w2"
      by (rule tc_step.hit) (use w1 F True in simp_all)
    with step1 have "(tc_step E (acquire E P) cx)\<^sup>*\<^sup>* w ?w2"
      by (meson converse_rtranclp_into_rtranclp rtranclp.rtrancl_refl)
    moreover have "cache ?w2 = s'" "acquiring ?w2 = None" "phases ?w2 = (phases w)(t := Returned r)"
      using w1 r by simp_all
    ultimately show ?thesis by blast
  next
    case False
    obtain start s3 where N: "now E (clear_token s2) = (start, s3)" by (cases "now E (clear_token s2)")
    obtain q s4 where A: "acquire E P start s3 = (q, s4)" by (cases "acquire E P start s3")
    have S: "store_token E start q s4 = (r, s')"
      using assms(1) F False N A \<open>env_ctx E _ = None\<close>
      by (auto simp: accessToken_def ctx_done_def s1_def)
    let ?f = "length (flights w1)"
    let ?wl = "goto (w1\<lparr>cache := clear_token s2, acquiring := Some ?f, flights := flights w1 @ [Flying]\<rparr>) t (Leading ?f)"
    let ?w2 = "goto (?wl\<lparr>cache := s3\<rparr>) t (Acquiring ?f start)"
    let ?w3 = "goto (?w2\<lparr>cache := s4\<rparr>) t (Fetched ?f start q)"
    let ?w4 = "goto (?w3\<lparr>cache := s', acquiring := None,
      flights := (flights ?w3)[?f := Landed (flight_error r)]\<rparr>) t (Returned r)"
    have "tc_step E (acquire E P) cx w1 ?wl"
      by (rule tc_step.lead [OF w1(3) _ w1(2)]) (use w1 F False in simp)
    moreover have "tc_step E (acquire E P) cx ?wl ?w2"
      by (rule tc_step.clock) (use N in simp_all)
    moreover have "tc_step E (acquire E P) cx ?w2 ?w3"
      by (rule tc_step.fetch) (use A in simp_all)
    moreover have "tc_step E (acquire E P) cx ?w3 ?w4"
      by (rule tc_step.publish) (use S in simp_all)
    ultimately have "(tc_step E (acquire E P) cx)\<^sup>*\<^sup>* w ?w4"
      using step1 by (meson converse_rtranclp_into_rtranclp rtranclp.rtrancl_refl)
    moreover have "cache ?w4 = s'" "acquiring ?w4 = None" "phases ?w4 = (phases w)(t := Returned r)"
      using w1(4) by simp_all
    ultimately show ?thesis by blast
  qed
qed

end
