(* ===== verification/TokenRuns.thy ===== *)
theory TokenRuns
  imports TokenCache
begin

text \<open>
  Infinite runs of the goroutines of \<open>TokenCache\<close> and what fair scheduling gives. A goroutine
  is ready when nothing in the model can block it: it leads a flight, or it waits for one that
  has landed. A run is fair when every ready goroutine moves at some time: it is scheduled, gets
  the mutex, and its acquisition ends (the HTTP client has a timeout).
\<close>

definition tc_run :: "env \<Rightarrow> token_client \<Rightarrow> (nat \<Rightarrow> nat \<Rightarrow> ctx_error option) \<Rightarrow> (nat \<Rightarrow> machine) \<Rightarrow> bool" where
  "tc_run E acq cx run \<longleftrightarrow> (\<exists>n. run 0 = tc_start n) \<and> (\<forall>i. tc_step E acq cx (run i) (run (Suc i)))"

definition ready :: "machine \<Rightarrow> nat \<Rightarrow> bool" where
  "ready w t \<longleftrightarrow> leads (phases w t) \<noteq> None \<or> (\<exists>f. phases w t = Waiting f \<and> flights w ! f \<noteq> Flying)"

definition fair :: "(nat \<Rightarrow> machine) \<Rightarrow> bool" where
  "fair run \<longleftrightarrow> (\<forall>i t. ready (run i) t \<longrightarrow> (\<exists>j \<ge> i. phases (run (Suc j)) t \<noteq> phases (run j) t))"

lemma run_reachable:
  assumes "tc_run E acq cx run"
  shows "tc_reachable E acq cx (run i)"
proof (induction i)
  case 0
  then show ?case using assms tc_reachable.init by (auto simp: tc_run_def)
next
  case (Suc i)
  then show ?case using assms tc_reachable.more by (auto simp: tc_run_def)
qed

lemma run_step: "tc_run E acq cx run \<Longrightarrow> tc_step E acq cx (run i) (run (Suc i))"
  by (simp add: tc_run_def)

section \<open>Moves of one goroutine\<close>

text \<open>The first move of a goroutine from where it is.\<close>

lemma first_move:
  assumes "i \<le> j" and "phases (run (Suc j)) t \<noteq> phases (run i) t"
  obtains m where "i \<le> m" "m \<le> j" "\<And>k. i \<le> k \<Longrightarrow> k \<le> m \<Longrightarrow> phases (run k) t = phases (run i) t"
    "phases (run (Suc m)) t \<noteq> phases (run m) t"
proof -
  let ?left = "\<lambda>m. i \<le> m \<and> phases (run (Suc m)) t \<noteq> phases (run i) t"
  define m where "m = (LEAST m. ?left m)"
  have m: "?left m" unfolding m_def by (rule LeastI [of ?left j]) (use assms in simp)
  have stay: "phases (run k) t = phases (run i) t" if "i \<le> k" "k \<le> m" for k
  proof (cases "k = i")
    case False
    with that(1) have "i < k" by simp
    then obtain l where l: "k = Suc l" "i \<le> l" by (cases k) auto
    then have "\<not> ?left l" using not_less_Least [of l ?left] that(2) by (simp add: m_def)
    with l show ?thesis by simp
  qed simp
  have "m \<le> j" unfolding m_def by (rule Least_le) (use assms in simp)
  moreover have "phases (run (Suc m)) t \<noteq> phases (run m) t"
    using m stay [of m] by (metis le_refl)
  ultimately show thesis using that m stay by blast
qed

lemma ready_moves:
  assumes "fair run" and "ready (run i) t"
  obtains m where "i \<le> m" "\<And>k. i \<le> k \<Longrightarrow> k \<le> m \<Longrightarrow> phases (run k) t = phases (run i) t"
    "phases (run (Suc m)) t \<noteq> phases (run m) t"
proof -
  obtain j where j: "i \<le> j" "phases (run (Suc j)) t \<noteq> phases (run j) t"
    using assms by (auto simp: fair_def)
  show thesis
  proof (cases "phases (run (Suc j)) t = phases (run i) t")
    case True
    then obtain l where "j = Suc l" "i \<le> l" "phases (run (Suc l)) t \<noteq> phases (run i) t"
      using j by (cases j) (auto simp: le_Suc_eq)
    then show thesis using first_move [of i l run t] that by metis
  next
    case False
    then show thesis using first_move [OF j(1)] that by metis
  qed
qed

text \<open>The leader of a flight reads the clock, acquires, and lands the flight.\<close>

lemma leader_moves:
  assumes "tc_step E acq cx w w'" and "leads (phases w u) = Some f" and "phases w' u \<noteq> phases w u"
    and "f < length (flights w)"
  shows "phases w u = Leading f \<and> (\<exists>start. phases w' u = Acquiring f start)
    \<or> (\<exists>start r. phases w u = Acquiring f start \<and> phases w' u = Fetched f start r)
    \<or> (\<exists>start r. phases w u = Fetched f start r) \<and> flights w' ! f \<noteq> Flying"
  using assms by (cases rule: tc_step.cases) (auto split: if_splits)

text \<open>A waiter leaves by the outcome of its flight, or because its own context is done.\<close>

lemma waiter_moves:
  assumes "tc_step E acq cx w w'" and "phases w t = Waiting f" and "phases w' t \<noteq> phases w t"
  shows "flights w ! f = Landed None \<and> phases w' t = Calling
    \<or> (\<exists>e. flights w ! f = Landed (Some e) \<and> phases w' t = Returned (Inl e))
    \<or> cx t (tick (cache w)) \<noteq> None \<and> phases w' t = Returned (Inl ErrUnavailable)"
  using assms by (cases rule: tc_step.cases) (auto split: if_splits)

section \<open>Every flight lands, every waiter leaves\<close>

context token_client
begin

lemma run_inv:
  assumes "tc_run E acq cx run"
  shows "single_flight (run i)" and "flights_ok (run i)"
  using reachable_inv [OF run_reachable [OF assms]] by simp_all

lemma flights_grow:
  assumes "tc_step E acq cx w w'"
  shows "length (flights w) \<le> length (flights w')"
  using assms by (cases rule: tc_step.cases) simp_all

lemma run_flights:
  assumes "tc_run E acq cx run" and "i \<le> j"
  shows "length (flights (run i)) \<le> length (flights (run j))"
  using assms(2)
proof (induction rule: dec_induct)
  case (step k)
  then show ?case using flights_grow [OF run_step [OF assms(1), of k]] by simp
qed simp

text \<open>One move of the leader: it comes closer to landing the flight.\<close>

lemma leader_advances:
  assumes run: "tc_run E acq cx run" and "fair run" and "leads (phases (run i) u) = Some f"
    and "f < length (flights (run i))"
  obtains j where "i < j" "f < length (flights (run j))"
    "phases (run i) u = Leading f \<and> (\<exists>start. phases (run j) u = Acquiring f start)
     \<or> (\<exists>start r. phases (run i) u = Acquiring f start \<and> phases (run j) u = Fetched f start r)
     \<or> (\<exists>start r. phases (run i) u = Fetched f start r) \<and> flights (run j) ! f \<noteq> Flying"
proof -
  have "ready (run i) u" using assms(3) by (simp add: ready_def)
  from ready_moves [OF assms(2) this] obtain m where m: "i \<le> m" "phases (run m) u = phases (run i) u"
    "phases (run (Suc m)) u \<noteq> phases (run m) u"
    by (metis le_refl)
  have len: "f < length (flights (run m))" "f < length (flights (run (Suc m)))"
    using run_flights [OF run, of i m] run_flights [OF run, of i "Suc m"] m(1) assms(4) by simp_all
  from leader_moves [OF run_step [OF run, of m], of u f] m assms(3) len(1)
  show thesis by (intro that [of "Suc m"]) (use m(1) len(2) in auto)
qed

lemma leader_lands:
  assumes run: "tc_run E acq cx run" and "fair run" and "leads (phases (run i) u) = Some f"
    and "f < length (flights (run i))"
  shows "\<exists>j > i. f < length (flights (run j)) \<and> flights (run j) ! f \<noteq> Flying"
proof -
  note advance = leader_advances [OF run assms(2)]
  have fetched: "\<exists>j > i. f < length (flights (run j)) \<and> flights (run j) ! f \<noteq> Flying"
    if "phases (run i) u = Fetched f start r" "f < length (flights (run i))" for i start r
    using advance [of i u f] that by fastforce
  have acquiring: "\<exists>j > i. f < length (flights (run j)) \<and> flights (run j) ! f \<noteq> Flying"
    if now: "phases (run i) u = Acquiring f start" and len: "f < length (flights (run i))" for i start
  proof -
    have lead: "leads (phases (run i) u) = Some f" using now by simp
    obtain j r where "i < j" "f < length (flights (run j))" "phases (run j) u = Fetched f start r"
      by (rule advance [OF lead len]) (use now in auto)
    from fetched [OF this(3,2)] \<open>i < j\<close> show ?thesis using less_trans by blast
  qed
  have leading: "\<exists>j > i. f < length (flights (run j)) \<and> flights (run j) ! f \<noteq> Flying"
    if now: "phases (run i) u = Leading f" and len: "f < length (flights (run i))"
  proof -
    have lead: "leads (phases (run i) u) = Some f" using now by simp
    obtain j st where "i < j" "f < length (flights (run j))" "phases (run j) u = Acquiring f st"
      by (rule advance [OF lead len]) (use now in auto)
    from acquiring [OF this(3,2)] \<open>i < j\<close> show ?thesis using less_trans by blast
  qed
  show ?thesis
  proof (cases "phases (run i) u")
    case (Leading g)
    then show ?thesis using assms(3,4) leading by simp
  next
    case (Acquiring g start)
    then show ?thesis using assms(3,4) acquiring [of i start] by simp
  next
    case (Fetched g start r)
    then show ?thesis using assms(3,4) fetched [of i start r] by simp
  qed (use assms(3) in simp_all)
qed

lemma flight_lands:
  assumes run: "tc_run E acq cx run" and "fair run" and "phases (run i) t = Waiting f"
  shows "\<exists>j \<ge> i. flights (run j) ! f \<noteq> Flying"
proof (cases "flights (run i) ! f = Flying")
  case True
  have inv: "single_flight (run i)" "flights_ok (run i)" using run_inv [OF run] by simp_all
  then have f: "f < length (flights (run i))" "acquiring (run i) = Some f"
    using True assms(3) by (auto simp: flights_ok_def)
  then obtain u where "leads (phases (run i) u) = Some f" using inv(1) by (auto simp: single_flight_def)
  from leader_lands [OF run assms(2) this f(1)] show ?thesis by (meson less_imp_le)
qed blast

text \<open>The waiter waits until some time, and the step it then makes is one of the three.\<close>

lemma waiter_leaves:
  assumes run: "tc_run E acq cx run" and "fair run" and "phases (run i) t = Waiting f"
  shows "\<exists>m \<ge> i. (\<forall>k. i \<le> k \<and> k \<le> m \<longrightarrow> phases (run k) t = Waiting f) \<and>
     (flights (run m) ! f = Landed None \<and> phases (run (Suc m)) t = Calling
    \<or> (\<exists>e. flights (run m) ! f = Landed (Some e) \<and> phases (run (Suc m)) t = Returned (Inl e))
    \<or> cx t (tick (cache (run m))) \<noteq> None \<and> phases (run (Suc m)) t = Returned (Inl ErrUnavailable))"
proof -
  have "\<exists>j \<ge> i. phases (run (Suc j)) t \<noteq> phases (run i) t"
  proof (rule ccontr)
    assume never: "\<not> (\<exists>j \<ge> i. phases (run (Suc j)) t \<noteq> phases (run i) t)"
    obtain j where j: "i \<le> j" "flights (run j) ! f \<noteq> Flying" using flight_lands [OF assms] by blast
    have stay: "phases (run k) t = Waiting f" if "i \<le> k" for k
      using never that assms(3) by (cases k) (auto simp: le_Suc_eq)
    then have "ready (run j) t" using j by (auto simp: ready_def)
    from ready_moves [OF assms(2) this] obtain m where "j \<le> m" "phases (run (Suc m)) t \<noteq> phases (run m) t"
      by metis
    with stay [of m] stay [of "Suc m"] j(1) show False by simp
  qed
  then obtain j where "i \<le> j" "phases (run (Suc j)) t \<noteq> phases (run i) t" by blast
  from first_move [OF this] obtain m where m: "i \<le> m" "\<And>k. i \<le> k \<Longrightarrow> k \<le> m \<Longrightarrow> phases (run k) t = Waiting f"
    "phases (run (Suc m)) t \<noteq> phases (run m) t"
    using assms(3) by metis
  from waiter_moves [OF run_step [OF run, of m] m(2) [OF m(1) le_refl] m(3)] m(1,2)
  show ?thesis by (intro exI [of _ m]) blast
qed

end

section \<open>Fair runs exist\<close>

text \<open>A state in which nobody leads or waits: the run may stay there.\<close>

definition settled :: "machine \<Rightarrow> bool" where
  "settled w \<longleftrightarrow> (\<forall>t. leads (phases w t) = None \<and> (\<forall>f. phases w t \<noteq> Waiting f))"

lemma moves_between:
  assumes "phases (run (i + k)) t \<noteq> phases (run i) t"
  shows "\<exists>j \<ge> i. phases (run (Suc j)) t \<noteq> phases (run j) t"
  using assms
proof (induction k)
  case (Suc k)
  then show ?case by (cases "phases (run (i + k)) t = phases (run i) t") (auto intro!: exI [of _ "i + k"])
qed simp

lemma fair_settled:
  assumes "\<And>i. n \<le> i \<Longrightarrow> run i = w" and "settled w"
  shows "fair run"
  unfolding fair_def
proof (intro allI impI)
  fix i t assume r: "ready (run i) t"
  have w: "run (i + n) = w" by (rule assms(1)) simp
  have "leads (phases w t) = None" "\<And>f. phases w t \<noteq> Waiting f" using assms(2) by (simp_all add: settled_def)
  then have "phases (run (i + n)) t \<noteq> phases (run i) t"
    using r unfolding w ready_def by metis
  then show "\<exists>j \<ge> i. phases (run (Suc j)) t \<noteq> phases (run j) t" by (rule moves_between)
qed

lemma reachable_steps:
  assumes "tc_reachable E acq cx w"
  shows "\<exists>n. (tc_step E acq cx)\<^sup>*\<^sup>* (tc_start n) w"
  using assms by induction (auto intro: rtranclp.rtrancl_into_rtrancl)

text \<open>A reachable state from which a settled one can be reached lies on a fair run.\<close>

lemma on_fair_run:
  assumes "tc_reachable E acq cx w" and "(tc_step E acq cx)\<^sup>*\<^sup>* w w'" and "settled w'"
  shows "\<exists>run i. tc_run E acq cx run \<and> fair run \<and> run i = w"
proof -
  obtain n where "(tc_step E acq cx)\<^sup>*\<^sup>* (tc_start n) w" using reachable_steps [OF assms(1)] by blast
  then obtain k where "(tc_step E acq cx ^^ k) (tc_start n) w" by (auto simp: rtranclp_power)
  then obtain f where f: "f 0 = tc_start n" "f k = w" "\<forall>i < k. tc_step E acq cx (f i) (f (Suc i))"
    by (auto simp: relpowp_fun_conv)
  obtain l where "(tc_step E acq cx ^^ l) w w'" using assms(2) by (auto simp: rtranclp_power)
  then obtain g where g: "g 0 = w" "g l = w'" "\<forall>i < l. tc_step E acq cx (g i) (g (Suc i))"
    by (auto simp: relpowp_fun_conv)
  define run where "run i = (if i \<le> k then f i else if i \<le> k + l then g (i - k) else w')" for i
  have stutter: "tc_step E acq cx w' w'" using tc_step.pass [of E acq cx w' 0] by simp
  have step: "tc_step E acq cx (run i) (run (Suc i))" for i
  proof -
    consider "i < k" | "i = k" "l = 0" | "k \<le> i" "i < k + l" | "k + l \<le> i" by linarith
    then show ?thesis
    proof cases
      case 3
      then have "run i = g (i - k)" "run (Suc i) = g (Suc (i - k))"
        using f(2) g(1) by (auto simp: run_def Suc_diff_le)
      then show ?thesis using g(3) 3 by auto
    next
      case 4
      then have "run (Suc i) = w'" by (simp add: run_def)
      moreover have "run i = w'"
      proof (cases "i = k + l")
        case True
        then show ?thesis using f(2) g(1,2) by (cases l) (auto simp: run_def)
      next
        case False
        then show ?thesis using 4 by (simp add: run_def)
      qed
      ultimately show ?thesis using stutter by simp
    qed (use f g stutter in \<open>auto simp: run_def\<close>)
  qed
  have late: "run i = w'" if "k + l < i" for i using that by (simp add: run_def)
  have "fair run" by (rule fair_settled [of "Suc (k + l)" run w']) (use late assms(3) in auto)
  moreover have "tc_run E acq cx run" using step f(1) by (auto simp: tc_run_def run_def)
  moreover have "run k = w" using f(2) by (simp add: run_def)
  ultimately show ?thesis by blast
qed

end
