(* ===== verification/Policy.thy ===== *)
theory Policy
  imports Config
begin

text \<open>
  What a configuration has to satisfy, by \<open>docs/esignet-configuration.md\<close> and with the limits of
  \<open>config.go\<close>, written without the predicates of the code: only the configuration records, the
  URL and address parsers, white-space trimming and the numbers and characters themselves occur.
  The lemmas relate each of the code's checks to its part of this specification.
\<close>

section \<open>The specification\<close>

definition spec_named :: "string \<Rightarrow> bool" where
  "spec_named s \<longleftrightarrow> trim_space s \<noteq> []"

definition spec_text :: "string \<Rightarrow> bool" where
  "spec_text s \<longleftrightarrow> trim_space s \<noteq> [] \<and> length s \<le> 4096"

definition spec_field :: "string \<Rightarrow> bool" where
  "spec_field s \<longleftrightarrow> s \<noteq> [] \<and> set s \<subseteq> {CHR ''a''..CHR ''z''} \<union> {CHR ''A''..CHR ''Z''} \<union> {CHR ''0''..CHR ''9''}
     \<union> {CHR ''_'', CHR ''-'', CHR ''.''}"

text \<open>HTTPS, or HTTP where it was allowed, to a host, and nothing but a path behind it.\<close>

definition spec_endpoint :: "bool \<Rightarrow> string \<Rightarrow> bool" where
  "spec_endpoint insecure s \<longleftrightarrow> (\<exists>u. url_parse s = Some u
     \<and> Scheme u \<in> (if insecure then {''https'', ''http''} else {''https''})
     \<and> Host u \<noteq> [] \<and> User u = None \<and> RawQuery u = [] \<and> Fragment u = [])"

definition spec_resource :: "string \<Rightarrow> bool" where
  "spec_resource s \<longleftrightarrow> length s \<le> 4096 \<and> CHR ''#'' \<notin> set s
     \<and> (\<exists>u. url_parse s = Some u \<and> Scheme u \<noteq> [] \<and> User u = None)"

definition spec_route :: "string \<Rightarrow> bool" where
  "spec_route s \<longleftrightarrow> spec_text s \<and> set s \<inter> {CHR ''/'', CHR 0x5C, CHR ''?'', CHR ''#''} = {}
     \<and> s \<notin> {''.'', ''..''}"

text \<open>Scope tokens of RFC 6749: visible ASCII without the quotation mark and the backslash.\<close>

definition spec_scopes :: "string list \<Rightarrow> bool" where
  "spec_scopes ss \<longleftrightarrow> ss \<noteq> [] \<and> length ss \<le> 32 \<and> distinct ss
     \<and> (\<forall>s \<in> set ss. s \<noteq> [] \<and> length s \<le> 256 \<and> set s \<subseteq> {CHR ''!''..CHR ''~''} - {CHR 0x22, CHR 0x5C})
     \<and> length (join '' '' ss) \<le> 4096"

definition protocol_claims :: "string set" where
  "protocol_claims = {''iss'', ''aud'', ''exp'', ''iat'', ''nbf'', ''jti'', ''nonce'', ''auth_time'',
     ''acr'', ''amr'', ''azp'', ''at_hash'', ''c_hash'', ''sid'', ''cnf'', ''verified_claims''}"

definition spec_claims :: "(string \<times> string) list \<Rightarrow> bool" where
  "spec_claims m \<longleftrightarrow> (\<forall>(claim, src) \<in> set m. spec_named claim \<and> claim \<notin> protocol_claims
     \<and> (src = ''$psut'' \<or> spec_field src) \<and> (claim = ''sub'' \<longrightarrow> src = ''$psut''))"

definition spec_mail_address :: "string \<Rightarrow> bool" where
  "spec_mail_address s \<longleftrightarrow> length s \<le> 254 \<and> (\<exists>local domain. s = local @ CHR ''@'' # domain
     \<and> local \<noteq> [] \<and> domain \<noteq> []
     \<and> set local \<union> set domain \<subseteq> {CHR ''!''..CHR ''~''} - {CHR ''@'', CHR ''<'', CHR ''>''})"

definition spec_smtp_address :: "string \<Rightarrow> bool" where
  "spec_smtp_address s \<longleftrightarrow> length s \<le> 255 \<and> (\<exists>host port n. split_host_port s = Some (host, port)
     \<and> (host \<in> {''mailpit'', ''localhost''} \<or> (\<exists>ip. parse_ip host = Some ip \<and> is_loopback ip))
     \<and> parse_int port = Some n \<and> n \<in> {1..65535})"

definition spec_fields :: "BREGConfig \<Rightarrow> bool" where
  "spec_fields b \<longleftrightarrow> (\<forall>f \<in> set (ProvisionedFields b). spec_field f)
     \<and> SelectorField b \<in> set (AccountCheckFields b) \<and> set (AccountCheckFields b) \<subseteq> set (ProvisionedFields b)"

definition spec_demo :: "DemoConfig \<Rightarrow> bool" where
  "spec_demo d \<longleftrightarrow> \<not> (StaticOTPEnabled d \<and> mp_Enabled (Mailpit d))
     \<and> (StaticOTPEnabled d \<longrightarrow> spec_named (StaticOTPFile d))
     \<and> (mp_Enabled (Mailpit d) \<longrightarrow> spec_smtp_address (SMTPAddress (Mailpit d))
          \<and> spec_mail_address (Sender (Mailpit d)) \<and> spec_mail_address (Recipient (Mailpit d)))"

definition policy :: "Config \<Rightarrow> bool" where
  "policy c \<longleftrightarrow>
     (\<forall>e \<in> {TokenEndpoint (TokenClient c), AssertionAudience (TokenClient c), BaseURL (BREG c)}.
        spec_endpoint (AllowInsecureHTTP (HTTP c)) e)
     \<and> spec_resource (Resource (TokenClient c)) \<and> spec_scopes (Scopes (TokenClient c))
     \<and> AssertionTTLSeconds (TokenClient c) \<in> {1..300} \<and> TokenCacheMaxSeconds (TokenClient c) \<in> {1..86400}
     \<and> TimeoutSeconds (HTTP c) \<in> {1..120} \<and> MaxResponseBytes (HTTP c) \<in> {1..16777216}
     \<and> spec_fields (BREG c) \<and> spec_claims (ClaimMap c)
     \<and> spec_text (SubjectIDType c) \<and> spec_text (tc_ClientID (TokenClient c)) \<and> spec_text (KeyID (TokenClient c))
     \<and> spec_route (Route (BREG c)) \<and> spec_text (Selector (BREG c))
     \<and> spec_named (PSUTSecretFile c) \<and> spec_named (PrivateKeyFile (TokenClient c)) \<and> spec_demo (Demo c)"

section \<open>The code's checks meet it\<close>

lemma not_blank_spec: "\<not> blank s \<longleftrightarrow> spec_named s"
  by (simp add: blank_def spec_named_def)

lemma validText_spec: "validText s \<longleftrightarrow> spec_text s"
  by (simp add: validText_def spec_text_def blank_def)

lemma validField_spec: "validField s \<longleftrightarrow> spec_field s"
proof -
  have "list_all valid_field_rune (runes s) \<longleftrightarrow> list_all (\<lambda>c. valid_field_rune (byte c)) s"
    by (rule runes_all_ascii) (auto simp: valid_field_rune_def)
  moreover have "valid_field_rune (byte c) \<longleftrightarrow> c \<in> {CHR ''a''..CHR ''z''} \<union> {CHR ''A''..CHR ''Z''} \<union> {CHR ''0''..CHR ''9''}
     \<union> {CHR ''_'', CHR ''-'', CHR ''.''}" for c
  proof -
    have "c = CHR ''_'' \<longleftrightarrow> byte c = 95" "c = CHR ''-'' \<longleftrightarrow> byte c = 45" "c = CHR ''.'' \<longleftrightarrow> byte c = 46"
      using byte_eq_iff [of c "CHR ''_''"] byte_eq_iff [of c "CHR ''-''"] byte_eq_iff [of c "CHR ''.''"]
      by (simp_all del: byte_eq_iff)
    then show ?thesis by (simp add: valid_field_rune_def less_eq_char_def) blast
  qed
  ultimately show ?thesis by (simp only: validField_def spec_field_def list_all_iff subset_eq)
qed

lemma validEndpoint_spec: "validEndpoint s insecure \<longleftrightarrow> spec_endpoint insecure s"
  by (auto simp: validEndpoint_def spec_endpoint_def split: option.splits)

lemma validResource_spec: "validResource s \<longleftrightarrow> spec_resource s"
  by (auto simp: validResource_def spec_resource_def split: option.splits)

lemma route_ok_spec: "route_ok s \<longleftrightarrow> spec_route s"
  by (auto simp: route_ok_def spec_route_def validText_spec contains_any_def list_ex_iff)

lemma validScopeToken_spec:
  "validScopeToken s \<longleftrightarrow> s \<noteq> [] \<and> set s \<subseteq> {CHR ''!''..CHR ''~''} - {CHR 0x22, CHR 0x5C}"
proof -
  have "\<not> (byte c \<noteq> 0x21 \<and> (byte c < 0x23 \<or> byte c > 0x5b) \<and> (byte c < 0x5d \<or> byte c > 0x7e))
     \<longleftrightarrow> c \<in> {CHR ''!''..CHR ''~''} - {CHR 0x22, CHR 0x5C}" for c
  proof -
    have "c = CHR 0x22 \<longleftrightarrow> byte c = 34" "c = CHR 0x5C \<longleftrightarrow> byte c = 92"
      using byte_eq_iff [of c "CHR 0x22"] byte_eq_iff [of c "CHR 0x5C"] by (simp_all del: byte_eq_iff)
    then show ?thesis by (simp add: less_eq_char_def) linarith
  qed
  then show ?thesis by (simp only: validScopeToken_def list_all_iff subset_eq)
qed

lemma validScopes_spec: "validScopes ss \<longleftrightarrow> spec_scopes ss"
  unfolding validScopes_iff spec_scopes_def validScopeToken_spec by blast

lemma reservedClaim_spec: "reservedClaim s \<longleftrightarrow> s \<in> protocol_claims"
  unfolding reservedClaim_def protocol_claims_def by (rule refl)

lemma claim_ok_spec: "(\<forall>(k, v) \<in> set m. claim_ok k v) \<longleftrightarrow> spec_claims m"
  unfolding claim_ok_def spec_claims_def reservedClaim_spec validField_spec
  by (simp only: not_blank_spec [symmetric]) blast

lemma validMailpitAddress_spec: "validMailpitAddress s \<longleftrightarrow> spec_smtp_address s"
proof (cases "split_host_port s")
  case None
  then show ?thesis by (simp add: validMailpitAddress_def spec_smtp_address_def)
next
  case (Some hp)
  then obtain host port where s: "split_host_port s = Some (host, port)" by (cases hp) simp
  have ip: "(case parse_ip host of None \<Rightarrow> True | Some ip \<Rightarrow> \<not> is_loopback ip)
      \<longleftrightarrow> \<not> (\<exists>ip. parse_ip host = Some ip \<and> is_loopback ip)"
    by (simp split: option.split)
  have num: "(case parse_int port of None \<Rightarrow> False | Some n \<Rightarrow> 0 < n \<and> n \<le> 65535)
      \<longleftrightarrow> (\<exists>n. parse_int port = Some n \<and> n \<in> {1..65535})"
    by (auto split: option.split)
  define named where "named \<longleftrightarrow> host \<in> {''mailpit'', ''localhost''}"
  define local where "local \<longleftrightarrow> (\<exists>ip. parse_ip host = Some ip \<and> is_loopback ip)"
  define bound where "bound \<longleftrightarrow> (\<exists>n. parse_int port = Some n \<and> n \<in> {1..65535})"
  have "host \<noteq> ''mailpit'' \<and> host \<noteq> ''localhost'' \<longleftrightarrow> \<not> named"
    unfolding named_def by blast
  then have code: "validMailpitAddress s \<longleftrightarrow> \<not> (255 < length s \<or> \<not> named \<and> \<not> local) \<and> bound"
    unfolding validMailpitAddress_def s option.case prod.case ip num local_def [symmetric] bound_def [symmetric]
    by (simp only: if_bool_eq_conj) blast
  have "spec_smtp_address s \<longleftrightarrow> length s \<le> 255 \<and> (named \<or> local) \<and> bound"
    unfolding spec_smtp_address_def s option.inject prod.inject named_def local_def bound_def by blast
  with code show ?thesis unfolding not_less [symmetric] by blast
qed

text \<open>One separator splits an address in two parts, and the code looks at every byte of it.\<close>

lemma one_at:
  "length (filter (\<lambda>c. c = x) s) = 1 \<longleftrightarrow> (\<exists>a b. s = a @ x # b \<and> x \<notin> set a \<and> x \<notin> set b)"
proof
  assume one: "length (filter (\<lambda>c. c = x) s) = 1"
  then have "x \<in> set s" by (cases "filter (\<lambda>c. c = x) s") (auto simp: filter_eq_Cons_iff)
  then obtain a b where s: "s = a @ x # b" "x \<notin> set a" by (meson split_list_first)
  with one have "x \<notin> set b" by (auto simp: filter_empty_conv)
  with s show "\<exists>a b. s = a @ x # b \<and> x \<notin> set a \<and> x \<notin> set b" by blast
next
  assume "\<exists>a b. s = a @ x # b \<and> x \<notin> set a \<and> x \<notin> set b"
  then obtain a b where s: "s = a @ x # b" "x \<notin> set a" "x \<notin> set b" by blast
  have "filter (\<lambda>c. c = x) a = []" "filter (\<lambda>c. c = x) b = []"
    using s(2,3) by (auto simp: filter_empty_conv)
  then show "length (filter (\<lambda>c. c = x) s) = 1" by (simp add: s(1))
qed

lemma validMailAddress_spec: "validMailAddress s \<longleftrightarrow> spec_mail_address s"
proof -
  let ?byte_ok = "\<lambda>c. 33 \<le> byte c \<and> byte c \<le> 126 \<and> byte c \<noteq> 60 \<and> byte c \<noteq> 62"
  have runes: "list_all (\<lambda>r. 33 \<le> r \<and> r \<le> 126) (runes s) \<longleftrightarrow> (\<forall>c \<in> set s. 33 \<le> byte c \<and> byte c \<le> 126)"
    using runes_all_ascii [of "\<lambda>r. 33 \<le> r \<and> r \<le> 126" s] by (auto simp: list_all_iff)
  have ok: "c \<in> {CHR ''!''..CHR ''~''} - {CHR ''@'', CHR ''<'', CHR ''>''} \<longleftrightarrow> ?byte_ok c \<and> c \<noteq> CHR ''@''" for c
  proof -
    have "c = CHR ''<'' \<longleftrightarrow> byte c = 60" "c = CHR ''>'' \<longleftrightarrow> byte c = 62"
      using byte_eq_iff [of c "CHR ''<''"] byte_eq_iff [of c "CHR ''>''"] by (simp_all del: byte_eq_iff)
    then show ?thesis by (auto simp: less_eq_char_def)
  qed
  have code: "validMailAddress s \<longleftrightarrow> 3 \<le> length s \<and> length s \<le> 254
      \<and> (\<exists>a b. s = a @ CHR ''@'' # b \<and> CHR ''@'' \<notin> set a \<and> CHR ''@'' \<notin> set b \<and> a \<noteq> [] \<and> b \<noteq> [])
      \<and> (\<forall>c \<in> set s. ?byte_ok c)" (is "_ \<longleftrightarrow> _ \<and> _ \<and> ?parts \<and> ?bytes")
  proof -
    have bytes: "\<not> list_ex (\<lambda>c. byte c \<in> {13, 10, 60, 62, 0, 32, 9}) s
        \<and> (\<forall>c \<in> set s. 33 \<le> byte c \<and> byte c \<le> 126) \<longleftrightarrow> ?bytes"
      by (auto simp: list_ex_iff)
    have parts: "length (filter (\<lambda>c. c = CHR ''@'') s) = 1
        \<and> (case split_on (CHR ''@'') s of a # b # _ \<Rightarrow> a \<noteq> [] \<and> b \<noteq> [] | _ \<Rightarrow> False) \<longleftrightarrow> ?parts"
    proof -
      have "split_on (CHR ''@'') (a @ CHR ''@'' # b) = [a, b]" if "CHR ''@'' \<notin> set a" "CHR ''@'' \<notin> set b" for a b
        using that by (simp add: split_on_append split_on_absent)
      then show ?thesis unfolding one_at by fastforce
    qed
    have flat: "(if short \<or> long \<or> n \<noteq> 1 \<or> bad then False else if \<not> r then False else p)
        \<longleftrightarrow> \<not> short \<and> \<not> long \<and> (n = 1 \<and> p) \<and> \<not> bad \<and> r" for short long bad r p and n :: nat
      by auto
    show ?thesis
      unfolding validMailAddress_def flat runes bytes parts unfolding not_less by (rule refl)
  qed
  have split: "(\<forall>c \<in> set s. ?byte_ok c) \<and> CHR ''@'' \<notin> set a \<and> CHR ''@'' \<notin> set b
      \<longleftrightarrow> set a \<union> set b \<subseteq> {CHR ''!''..CHR ''~''} - {CHR ''@'', CHR ''<'', CHR ''>''}"
    if "s = a @ CHR ''@'' # b" for a b
  proof -
    have "?byte_ok CHR ''@''" by simp
    then show ?thesis unfolding subset_iff ok that set_append list.set(2) by blast
  qed
  have long: "3 \<le> length s" if "s = a @ CHR ''@'' # b" "a \<noteq> []" "b \<noteq> []" for a b
    using that by (cases a; cases b) simp_all
  show ?thesis
  proof
    assume "validMailAddress s"
    then obtain a b where s: "s = a @ CHR ''@'' # b" "a \<noteq> []" "b \<noteq> []"
      and at: "CHR ''@'' \<notin> set a" "CHR ''@'' \<notin> set b"
      and rest: "length s \<le> 254" "\<forall>c \<in> set s. ?byte_ok c" unfolding code by blast
    have "set a \<union> set b \<subseteq> {CHR ''!''..CHR ''~''} - {CHR ''@'', CHR ''<'', CHR ''>''}"
      using split [OF s(1)] at rest(2) by blast
    with s rest(1) show "spec_mail_address s" unfolding spec_mail_address_def by blast
  next
    assume "spec_mail_address s"
    then obtain a b where s: "s = a @ CHR ''@'' # b" "a \<noteq> []" "b \<noteq> []" and short: "length s \<le> 254"
      and chars: "set a \<union> set b \<subseteq> {CHR ''!''..CHR ''~''} - {CHR ''@'', CHR ''<'', CHR ''>''}"
      unfolding spec_mail_address_def by blast
    have "\<forall>c \<in> set s. ?byte_ok c" "CHR ''@'' \<notin> set a" "CHR ''@'' \<notin> set b"
      using split [OF s(1)] chars by blast+
    with s short long [OF s] show "validMailAddress s" unfolding code by blast
  qed
qed

lemma demo_spec:
  "demo_ok c \<and> (StaticOTPEnabled (Demo c) \<longrightarrow> \<not> blank (StaticOTPFile (Demo c))) \<longleftrightarrow> spec_demo (Demo c)"
  unfolding demo_ok_def spec_demo_def validMailpitAddress_spec validMailAddress_spec not_blank_spec by blast

lemma fields_spec: "fields_ok c \<longleftrightarrow> spec_fields (BREG c) \<and> spec_claims (ClaimMap c)"
  unfolding fields_ok_def spec_fields_def claim_ok_spec list_all_iff validField_spec by auto

lemma policy_code:
  "policy c \<longleftrightarrow> endpoints_ok c \<and> bounds_ok c \<and> fields_ok c \<and> texts_ok c \<and> demo_ok c
    \<and> \<not> blank (PSUTSecretFile c) \<and> \<not> blank (PrivateKeyFile (TokenClient c))
    \<and> (StaticOTPEnabled (Demo c) \<longrightarrow> \<not> blank (StaticOTPFile (Demo c)))"
  unfolding policy_def endpoints_ok_def bounds_ok_def texts_ok_def fields_spec demo_spec [symmetric]
    validEndpoint_spec validResource_spec validText_spec route_ok_spec validScopes_spec not_blank_spec
    atLeastAtMost_iff
  by blast

end
