(* ===== verification/Verifier.thy ===== *)
theory Verifier
  imports World
begin

text \<open>
  The \<open>ChallengeVerifier\<close> interface of \<open>provider/types.go\<close> as a record of its two methods,
  the contract the provider relies on as the locale \<open>challenge_verifier\<close>, and the static
  verifier of \<open>provider/provider.go\<close> that satisfies it.

  A method gets the context it is called with (what \<open>ctx.Err()\<close> says at each logical time),
  the request, the verifier's own state and the logical time; it gives its error, its new
  state and the time after its own interactions with the world.
\<close>

type_synonym ctx = "nat \<Rightarrow> ctx_error option"

record 'v ChallengeVerifier =
  Verify :: "ctx \<Rightarrow> ChallengeRequest \<Rightarrow> 'v \<Rightarrow> nat \<Rightarrow> go_error option \<times> 'v \<times> nat"
  VerifierSendOTP :: "ctx \<Rightarrow> OTPRequest \<Rightarrow> 'v \<Rightarrow> nat \<Rightarrow> go_error option \<times> 'v \<times> nat"

text \<open>
  The contract: calls do not go back in time, honour a context that is done, and accept a
  challenge only when \<open>good\<close> says so of the state and the time of the call.
\<close>

locale challenge_verifier =
  fixes verify :: "ctx \<Rightarrow> ChallengeRequest \<Rightarrow> 'v \<Rightarrow> nat \<Rightarrow> go_error option \<times> 'v \<times> nat"
    and send :: "ctx \<Rightarrow> OTPRequest \<Rightarrow> 'v \<Rightarrow> nat \<Rightarrow> go_error option \<times> 'v \<times> nat"
    and good :: "ChallengeRequest \<Rightarrow> 'v \<Rightarrow> nat \<Rightarrow> bool"
  assumes verify_time: "verify x r v n = (e, v', n') \<Longrightarrow> n \<le> n'"
    and send_time: "send x q v n = (e, v', n') \<Longrightarrow> n \<le> n'"
    and verify_cancelled: "x n \<noteq> None \<Longrightarrow> fst (verify x r v n) \<noteq> None"
    and send_cancelled: "x n \<noteq> None \<Longrightarrow> fst (send x q v n) \<noteq> None"
    and verify_sound: "verify x r v n = (None, v', n') \<Longrightarrow> good r v n"
begin

lemma accepted:
  assumes "verify x r v n = (None, v', n')"
  shows "x n = None \<and> good r v n \<and> n \<le> n'"
  using assms verify_time [OF assms] verify_sound [OF assms] verify_cancelled [of x n r v]
  by (cases "x n") auto

lemma delivered:
  assumes "send x q v n = (None, v', n')"
  shows "x n = None \<and> n \<le> n'"
  using assms send_time [OF assms] send_cancelled [of x n q v] by (cases "x n") auto

end

section \<open>The static verifier\<close>

text \<open>The OTP is configured and never changes: the state is \<open>unit\<close>.\<close>

definition static_Verify :: "string \<Rightarrow> ctx \<Rightarrow> ChallengeRequest \<Rightarrow> unit \<Rightarrow> nat
    \<Rightarrow> go_error option \<times> unit \<times> nat" where
  "static_Verify otp x r v n =
     (if x n \<noteq> None \<or> otp \<noteq> cr_Challenge r then Some (ProviderErr ErrChallengeFailed) else None,
      v, Suc n)"

definition static_SendOTP :: "ctx \<Rightarrow> OTPRequest \<Rightarrow> unit \<Rightarrow> nat \<Rightarrow> go_error option \<times> unit \<times> nat" where
  "static_SendOTP x r v n = (map_option CtxErr (x n), v, Suc n)"

definition staticVerifier :: "string \<Rightarrow> unit ChallengeVerifier" where
  "staticVerifier otp = \<lparr>Verify = static_Verify otp, VerifierSendOTP = static_SendOTP\<rparr>"

interpretation static_cv: challenge_verifier "static_Verify otp" static_SendOTP
    "\<lambda>r v n. cr_Challenge r = otp" for otp
  by unfold_locales (auto simp: static_Verify_def static_SendOTP_def split: if_splits)

lemma static_Verify_iff:
  "fst (static_Verify otp x r v n) = None \<longleftrightarrow> x n = None \<and> cr_Challenge r = otp"
  by (auto simp: static_Verify_def)

end
