(* ===== verification/Mailpit.thy ===== *)
theory Mailpit
  imports Verifier "HOL-Library.Multiset"
begin

text \<open>
  \<open>provider/mailpit.go\<close>: the synthetic verifier that mails a six-digit code to a fixed
  recipient and keeps at most 1024 pending challenges. The critical sections are
  definitions of their own; \<open>mailpit_SendOTP\<close> and \<open>mailpit_Verify\<close> compose them for one
  call, and the step relation at the end interleaves them for any number of calls.
\<close>

definition mailpitChallengeTTL :: int where
  "mailpitChallengeTTL = 5 * 60 * second"

definition mailpitMaxPending :: nat where
  "mailpitMaxPending = 1024"

definition mailpitMaxAttempts :: nat where
  "mailpitMaxAttempts = 5"

record mailpitKey =
  mk_identifier :: string
  mk_identifierType :: string
  mk_binding :: Binding

record mailpitChallenge =
  digest :: string
  salt :: string
  expires :: int
  attempts :: nat

text \<open>The verifier's state, and the SMTP commands it has sent so far.\<close>

record mailpitVerifier =
  pending :: "(mailpitKey \<times> mailpitChallenge) list"
  inFlight :: nat
  outbox :: "smtp_command list"

definition newMailpitVerifier :: mailpitVerifier where
  "newMailpitVerifier = \<lparr>pending = [], inFlight = 0, outbox = []\<rparr>"

definition send_key :: "OTPRequest \<Rightarrow> mailpitKey" where
  "send_key r = \<lparr>mk_identifier = otp_Identifier r, mk_identifierType = otp_IdentifierType r,
     mk_binding = otp_Binding r\<rparr>"

definition verify_key :: "ChallengeRequest \<Rightarrow> mailpitKey" where
  "verify_key r = \<lparr>mk_identifier = cr_Identifier r, mk_identifierType = cr_IdentifierType r,
     mk_binding = cr_Binding r\<rparr>"

definition mailpitDigest :: "string \<Rightarrow> string \<Rightarrow> string" where
  "mailpitDigest sa code = sha256 (sa @ code)"

text \<open>\<open>fmt.Sprintf("%06d", n)\<close>.\<close>

definition six_digits :: "nat \<Rightarrow> string" where
  "six_digits n = replicate (6 - length (show_nat n)) (CHR ''0'') @ show_nat n"

section \<open>Sending a code\<close>

text \<open>The loop that drops expired challenges reads the clock for each.\<close>

fun purge :: "env \<Rightarrow> (mailpitKey \<times> mailpitChallenge) list \<Rightarrow> nat
    \<Rightarrow> (mailpitKey \<times> mailpitChallenge) list \<times> nat" where
  "purge E [] n = ([], n)"
| "purge E ((k, ch) # ps) n =
     (case purge E ps (Suc n) of (qs, n') \<Rightarrow>
        (if \<not> env_now E n < expires ch then qs else (k, ch) # qs, n'))"

text \<open>The first critical section: \<open>False\<close> when the verifier is full.\<close>

definition mailpit_admit :: "env \<Rightarrow> mailpitVerifier \<Rightarrow> nat \<Rightarrow> bool \<times> mailpitVerifier \<times> nat" where
  "mailpit_admit E m n = (case purge E (pending m) n of (ps, n') \<Rightarrow>
     (let m' = m\<lparr>pending := ps\<rparr>
      in if mailpitMaxPending \<le> length ps + inFlight m then (False, m', n')
         else (True, m'\<lparr>inFlight := inFlight m + 1\<rparr>, n')))"

text \<open>The code and the challenge that remembers its digest.\<close>

definition mailpit_prepare :: "env \<Rightarrow> nat \<Rightarrow> (string \<times> mailpitChallenge) option \<times> nat" where
  "mailpit_prepare E n = (case env_code E n of
     None \<Rightarrow> (None, n + 1)
   | Some x \<Rightarrow> (case rand_read E (n + 1) 16 of
       None \<Rightarrow> (None, n + 2)
     | Some sa \<Rightarrow>
         (let code = six_digits (x mod 1000000)
          in (Some (code, \<lparr>digest = mailpitDigest sa code, salt = sa,
                expires = env_now E (n + 2) + mailpitChallengeTTL, attempts = 0\<rparr>), n + 3))))"

definition mail_text :: "MailpitConfig \<Rightarrow> string \<Rightarrow> string" where
  "mail_text c code = ''From: '' @ Sender c @ [CHR 0x0D, CHR 0x0A] @ ''To: '' @ Recipient c
     @ [CHR 0x0D, CHR 0x0A] @ ''Subject: Synthetic eSignet code'' @ [CHR 0x0D, CHR 0x0A]
     @ [CHR 0x0D, CHR 0x0A] @ ''Your synthetic login code is '' @ code @ [CHR 0x0D, CHR 0x0A]"

definition smtp_script :: "MailpitConfig \<Rightarrow> string \<Rightarrow> smtp_command list" where
  "smtp_script c code = [Dial (SMTPAddress c), NewClient ''mailpit'', MailFrom (Sender c),
     RcptTo (Recipient c), DataCommand, WriteData (mail_text c code), CloseData, Quit]"

text \<open>
  Commands are sent until one fails; the log says which were sent. When writing the message
  fails its writer is closed, whatever that gives.
\<close>

fun abort_command :: "smtp_command \<Rightarrow> smtp_command list" where
  "abort_command (WriteData _) = [CloseData]"
| "abort_command _ = []"

fun smtp_run :: "env \<Rightarrow> smtp_command list \<Rightarrow> smtp_command list \<Rightarrow> nat
    \<Rightarrow> bool \<times> smtp_command list \<times> nat" where
  "smtp_run E [] out n = (True, out, n)"
| "smtp_run E (c # cs) out n =
     (if env_smtp E n c then smtp_run E cs (out @ [c]) (Suc n)
      else (False, out @ c # abort_command c, Suc n))"

definition mailpit_deliver :: "env \<Rightarrow> MailpitConfig \<Rightarrow> ctx \<Rightarrow> string \<Rightarrow> mailpitVerifier \<Rightarrow> nat
    \<Rightarrow> bool \<times> mailpitVerifier \<times> nat" where
  "mailpit_deliver E c x code m n = (case smtp_run E (smtp_script c code) (outbox m) n of
     (ok, out, n') \<Rightarrow>
       if ok then (x n' = None, m\<lparr>outbox := out\<rparr>, Suc n') else (False, m\<lparr>outbox := out\<rparr>, n'))"

text \<open>The critical section that installs the challenge, and the deferred one.\<close>

definition mailpit_install :: "mailpitKey \<Rightarrow> mailpitChallenge \<Rightarrow> mailpitVerifier \<Rightarrow> mailpitVerifier" where
  "mailpit_install k ch m = m\<lparr>pending := AList.update k ch (pending m)\<rparr>"

definition mailpit_release :: "mailpitVerifier \<Rightarrow> mailpitVerifier" where
  "mailpit_release m = m\<lparr>inFlight := inFlight m - 1\<rparr>"

text \<open>Everything between the admission and the deferred release.\<close>

definition mailpit_send :: "env \<Rightarrow> MailpitConfig \<Rightarrow> ctx \<Rightarrow> mailpitKey \<Rightarrow> mailpitVerifier \<Rightarrow> nat
    \<Rightarrow> go_error option \<times> mailpitVerifier \<times> nat" where
  "mailpit_send E c x k m n = (case mailpit_prepare E n of
     (None, n1) \<Rightarrow> (Some (ProviderErr ErrUnavailable), m, n1)
   | (Some (code, ch), n1) \<Rightarrow>
       (case mailpit_deliver E c x code m n1 of (ok, m2, n2) \<Rightarrow>
          if \<not> ok then (Some (ProviderErr ErrUnavailable), m2, n2)
          else (case x n2 of
             Some e \<Rightarrow> (Some (CtxErr e), m2, Suc n2)
           | None \<Rightarrow> (None, mailpit_install k ch m2, Suc n2))))"

definition mailpit_SendOTP :: "env \<Rightarrow> MailpitConfig \<Rightarrow> ctx \<Rightarrow> OTPRequest \<Rightarrow> mailpitVerifier \<Rightarrow> nat
    \<Rightarrow> go_error option \<times> mailpitVerifier \<times> nat" where
  "mailpit_SendOTP E c x r m n = (case x n of
     Some e \<Rightarrow> (Some (CtxErr e), m, Suc n)
   | None \<Rightarrow>
       if otp_Channels r \<noteq> [''email''] \<or> \<not> validBinding (otp_Binding r)
          \<or> \<not> validText (otp_Identifier r) \<or> \<not> validText (otp_IdentifierType r)
       then (Some (ProviderErr ErrInvalidRequest), m, Suc n)
       else (case mailpit_admit E m (Suc n) of (admitted, m1, n1) \<Rightarrow>
          if \<not> admitted then (Some (ProviderErr ErrUnavailable), m1, n1)
          else (case mailpit_send E c x (send_key r) m1 n1 of (e, m2, n2) \<Rightarrow>
             (e, mailpit_release m2, n2))))"

section \<open>Verifying a code\<close>

text \<open>The critical section of \<open>Verify\<close>; \<open>t\<close> is the clock, read only if there is a challenge.\<close>

definition mailpit_check :: "int \<Rightarrow> mailpitKey \<Rightarrow> string \<Rightarrow> mailpitVerifier \<Rightarrow> bool \<times> mailpitVerifier" where
  "mailpit_check t k code m = (case map_of (pending m) k of
     None \<Rightarrow> (False, m\<lparr>pending := AList.delete k (pending m)\<rparr>)
   | Some ch \<Rightarrow>
       if \<not> t < expires ch then (False, m\<lparr>pending := AList.delete k (pending m)\<rparr>)
       else (let ch' = ch\<lparr>attempts := attempts ch + 1\<rparr>;
                 match = (digest ch' = mailpitDigest (salt ch') code)
             in (match, m\<lparr>pending := (if match \<or> mailpitMaxAttempts \<le> attempts ch'
                   then AList.delete k (pending m) else AList.update k ch' (pending m))\<rparr>)))"

definition mailpit_Verify :: "env \<Rightarrow> ctx \<Rightarrow> ChallengeRequest \<Rightarrow> mailpitVerifier \<Rightarrow> nat
    \<Rightarrow> go_error option \<times> mailpitVerifier \<times> nat" where
  "mailpit_Verify E x r m n = (case x n of
     Some e \<Rightarrow> (Some (CtxErr e), m, Suc n)
   | None \<Rightarrow> (case mailpit_check (env_now E (Suc n)) (verify_key r) (cr_Challenge r) m of
       (ok, m') \<Rightarrow> (if ok then None else Some (ProviderErr ErrChallengeFailed), m',
         if map_of (pending m) (verify_key r) = None then Suc n else Suc (Suc n))))"

definition mailpit_verifier :: "env \<Rightarrow> MailpitConfig \<Rightarrow> mailpitVerifier ChallengeVerifier" where
  "mailpit_verifier E c = \<lparr>Verify = mailpit_Verify E, VerifierSendOTP = mailpit_SendOTP E c\<rparr>"

section \<open>Codes\<close>

lemma six_digits_shape:
  assumes "n < 1000000"
  shows "length (six_digits n) = 6" and "list_all is_digit (six_digits n)"
    and "digits_value (six_digits n) = n"
proof -
  have "length (show_nat n) \<le> 6" using show_nat_length [of n 5] assms by simp
  then show "length (six_digits n) = 6" by (simp add: six_digits_def)
  show "list_all is_digit (six_digits n)"
    using show_nat_digits [of n] by (auto simp: six_digits_def list_all_iff is_digit_def)
  show "digits_value (six_digits n) = n" by (simp add: six_digits_def digits_value_zeros)
qed

section \<open>Purging and admitting\<close>

lemma purge_subset:
  assumes "purge E ps n = (qs, n')"
  shows "set qs \<subseteq> set ps" and "length qs \<le> length ps" and "n' = n + length ps"
    and "distinct (map fst ps) \<Longrightarrow> distinct (map fst qs)"
proof -
  have "set qs \<subseteq> set ps \<and> length qs \<le> length ps \<and> n' = n + length ps
    \<and> (distinct (map fst ps) \<longrightarrow> distinct (map fst qs))"
    using assms
  proof (induction ps arbitrary: qs n)
    case (Cons p ps)
    obtain k ch where p: "p = (k, ch)" by (cases p)
    obtain rs where R: "purge E ps (Suc n) = (rs, n')"
      and qs: "qs = (if \<not> env_now E n < expires ch then rs else (k, ch) # rs)"
      using Cons.prems by (auto simp: p split: prod.splits)
    note IH = Cons.IH [OF R]
    have "k \<notin> fst ` set rs" if "k \<notin> fst ` set ps" using IH that by auto
    with IH show ?case by (auto simp: p qs)
  qed simp
  then show "set qs \<subseteq> set ps" "length qs \<le> length ps" "n' = n + length ps"
    "distinct (map fst ps) \<Longrightarrow> distinct (map fst qs)" by auto
qed

text \<open>A challenge that is still live when the clock is read for it is kept.\<close>

lemma purge_keeps:
  assumes "purge E ps n = (qs, n')" and "(k, ch) \<in> set ps" and "(k, ch) \<notin> set qs"
  shows "\<exists>i. n \<le> i \<and> i < n' \<and> expires ch \<le> env_now E i"
  using assms
proof (induction ps arbitrary: qs n)
  case (Cons p ps)
  obtain k0 ch0 where p: "p = (k0, ch0)" by (cases p)
  obtain rs where R: "purge E ps (Suc n) = (rs, n')"
    and qs: "qs = (if \<not> env_now E n < expires ch0 then rs else (k0, ch0) # rs)"
    using Cons.prems(1) by (auto simp: p split: prod.splits)
  show ?case
  proof (cases "(k, ch) = (k0, ch0) \<and> (k, ch) \<notin> set ps")
    case True
    then show ?thesis using qs Cons.prems(3) purge_subset(3) [OF R]
      by (intro exI [of _ n]) (auto split: if_splits)
  next
    case False
    have "(k, ch) \<in> set ps" "(k, ch) \<notin> set rs"
      using False Cons.prems(2,3) qs p by (auto split: if_splits)
    from Cons.IH [OF R this] show ?thesis by (meson Suc_leD)
  qed
qed simp

text \<open>
  The state of the verifier between critical sections: one challenge per key, the capacity
  respected, and every challenge with an attempt left.
\<close>

definition mailpit_inv :: "mailpitVerifier \<Rightarrow> bool" where
  "mailpit_inv m \<longleftrightarrow> distinct (map fst (pending m)) \<and> length (pending m) \<le> mailpitMaxPending
     \<and> (\<forall>(k, ch) \<in> set (pending m). attempts ch < mailpitMaxAttempts)"

lemma mailpit_inv_new: "mailpit_inv newMailpitVerifier"
  by (simp add: mailpit_inv_def newMailpitVerifier_def)

lemma mailpit_admit_inv:
  assumes "mailpit_admit E m n = (a, m', n')" and "mailpit_inv m"
  shows "mailpit_inv m'" and "n \<le> n'" and "outbox m' = outbox m"
    and "a \<Longrightarrow> length (pending m') + inFlight m' \<le> mailpitMaxPending \<and> inFlight m' = inFlight m + 1"
    and "\<not> a \<Longrightarrow> inFlight m' = inFlight m"
proof -
  obtain ps n1 where P: "purge E (pending m) n = (ps, n1)" by (cases "purge E (pending m) n")
  note S = purge_subset [OF P]
  have "mailpit_inv (m\<lparr>pending := ps, inFlight := i\<rparr>)" for i
    using assms(2) S by (auto simp: mailpit_inv_def)
  from this [of "inFlight m"] this [of "inFlight m + 1"]
  show "mailpit_inv m'" using assms(1) by (auto simp: mailpit_admit_def P Let_def split: if_splits)
  show "n \<le> n'" "outbox m' = outbox m"
    "a \<Longrightarrow> length (pending m') + inFlight m' \<le> mailpitMaxPending \<and> inFlight m' = inFlight m + 1"
    "\<not> a \<Longrightarrow> inFlight m' = inFlight m"
    using assms(1) S(3) by (auto simp: mailpit_admit_def P Let_def split: if_splits)
qed

lemma smtp_run_log:
  assumes "smtp_run E cs out n = (ok, out', n')"
  shows "ok \<Longrightarrow> out' = out @ cs" and "n \<le> n'"
proof -
  have "(ok \<longrightarrow> out' = out @ cs) \<and> n \<le> n'"
    using assms
  proof (induction cs arbitrary: out n)
    case (Cons c cs)
    show ?case
    proof (cases "env_smtp E n c")
      case True
      then have "smtp_run E cs (out @ [c]) (Suc n) = (ok, out', n')" using Cons.prems by simp
      from Cons.IH [OF this] show ?thesis by auto
    qed (use Cons.prems in auto)
  qed simp
  then show "ok \<Longrightarrow> out' = out @ cs" "n \<le> n'" by auto
qed

lemma mailpit_deliver_state:
  assumes "mailpit_deliver E c x code m n = (ok, m', n')"
  shows "pending m' = pending m" and "inFlight m' = inFlight m" and "n \<le> n'"
    and "ok \<Longrightarrow> outbox m' = outbox m @ smtp_script c code"
proof -
  obtain q out n1 where R: "smtp_run E (smtp_script c code) (outbox m) n = (q, out, n1)"
    by (cases "smtp_run E (smtp_script c code) (outbox m) n")
  note L = smtp_run_log [OF R]
  have d: "(ok, m', n') = (if q then (x n1 = None, m\<lparr>outbox := out\<rparr>, Suc n1)
      else (False, m\<lparr>outbox := out\<rparr>, n1))"
    using assms by (simp add: mailpit_deliver_def R)
  then show "pending m' = pending m" "inFlight m' = inFlight m" by (auto split: if_splits)
  from d L(2) show "n \<le> n'" by (auto split: if_splits)
  from d L(1) show "ok \<Longrightarrow> outbox m' = outbox m @ smtp_script c code" by (auto split: if_splits)
qed

lemma mailpit_prepareI:
  assumes "env_code E n = Some y" "rand_read E (n + 1) 16 = Some sa"
  shows "\<exists>code ch. mailpit_prepare E n = (Some (code, ch), n + 3)"
  by (simp add: mailpit_prepare_def assms [simplified] Let_def)

lemma mailpit_prepare_ok:
  assumes "mailpit_prepare E n = (Some (code, ch), n')"
  shows "n' = n + 3" and "attempts ch = 0" and "expires ch = env_now E (n + 2) + mailpitChallengeTTL"
    and "digest ch = mailpitDigest (salt ch) code" and "length (salt ch) = 16"
    and "length code = 6" and "list_all is_digit code"
proof -
  obtain y sa where y: "env_code E n = Some y" "rand_read E (n + 1) 16 = Some sa"
    "code = six_digits (y mod 1000000)"
    "ch = \<lparr>digest = mailpitDigest sa code, salt = sa,
       expires = env_now E (n + 2) + mailpitChallengeTTL, attempts = 0\<rparr>" "n' = n + 3"
    using assms by (auto simp: mailpit_prepare_def Let_def split: option.splits)
  have "y mod 1000000 < 1000000" by simp
  note six_digits_shape [OF this]
  then show "n' = n + 3" "attempts ch = 0" "expires ch = env_now E (n + 2) + mailpitChallengeTTL"
    "digest ch = mailpitDigest (salt ch) code" "length (salt ch) = 16"
    "length code = 6" "list_all is_digit code"
    using y rand_read_length [OF y(2)] by simp_all
qed

text \<open>The code and the salt are what the random source gave.\<close>

lemma mailpit_prepare_random:
  assumes "mailpit_prepare E n = (Some (code, ch), n')"
  shows "\<exists>z. env_code E n = Some z \<and> digits_value code = z mod 1000000"
    and "rand_read E (n + 1) 16 = Some (salt ch)"
  using assms six_digits_shape(3) by (auto simp: mailpit_prepare_def Let_def split: option.splits)

lemma length_update: "length (AList.update k v ps) \<le> Suc (length ps)"
  by (induction ps) auto

lemma set_update_subset: "set (AList.update k v ps) \<subseteq> insert (k, v) (set ps)"
  by (induction ps) auto

lemma mailpit_install_inv:
  assumes "mailpit_inv m" and "length (pending m) < mailpitMaxPending" and "attempts ch < mailpitMaxAttempts"
  shows "mailpit_inv (mailpit_install k ch m)"
proof -
  have "set (AList.update k ch (pending m)) \<subseteq> insert (k, ch) (set (pending m))"
    by (rule set_update_subset)
  then show ?thesis
    using assms length_update [of k ch "pending m"]
    by (auto simp: mailpit_inv_def mailpit_install_def distinct_update)
qed

section \<open>Checking a code\<close>

lemma mailpit_check_accepts:
  "fst (mailpit_check t k code m) \<longleftrightarrow> (\<exists>ch. map_of (pending m) k = Some ch
     \<and> t < expires ch \<and> digest ch = mailpitDigest (salt ch) code)"
  by (auto simp: mailpit_check_def Let_def split: option.splits)

lemma mailpit_check_state [simp]:
  "inFlight (snd (mailpit_check t k code m)) = inFlight m"
  "outbox (snd (mailpit_check t k code m)) = outbox m"
  by (simp_all add: mailpit_check_def Let_def split: option.splits)

lemma mailpit_check_other:
  "k' \<noteq> k \<Longrightarrow> map_of (pending (snd (mailpit_check t k code m))) k' = map_of (pending m) k'"
  by (simp add: mailpit_check_def Let_def delete_conv' update_conv' split: option.splits)

lemma mailpit_check_used:
  "fst (mailpit_check t k code m) \<Longrightarrow> map_of (pending (snd (mailpit_check t k code m))) k = None"
  by (auto simp: mailpit_check_def Let_def delete_conv' split: option.splits if_splits)

text \<open>A wrong code costs an attempt; the fifth one costs the challenge.\<close>

lemma mailpit_check_attempt:
  assumes "\<not> fst (mailpit_check t k code m)"
  shows "map_of (pending (snd (mailpit_check t k code m))) k = None
    \<or> (\<exists>ch. map_of (pending m) k = Some ch \<and> attempts ch + 1 < mailpitMaxAttempts
        \<and> map_of (pending (snd (mailpit_check t k code m))) k = Some (ch\<lparr>attempts := attempts ch + 1\<rparr>))"
  using assms
  by (auto simp: mailpit_check_def Let_def delete_conv' update_conv' split: option.splits if_splits)

lemma set_delete_subset: "set (AList.delete k ps) \<subseteq> set ps"
  by (auto simp: AList.delete_eq)

lemma length_delete: "length (AList.delete k ps) \<le> length ps"
  by (simp add: AList.delete_eq)

lemma length_update_present: "map_of ps k \<noteq> None \<Longrightarrow> length (AList.update k v ps) = length ps"
  by (induction ps) auto

lemma mailpit_check_inv:
  assumes "mailpit_inv m"
  shows "mailpit_inv (snd (mailpit_check t k code m))"
    and "length (pending (snd (mailpit_check t k code m))) \<le> length (pending m)"
proof -
  have del: "mailpit_inv (m\<lparr>pending := AList.delete k (pending m)\<rparr>)"
    using assms set_delete_subset [of k "pending m"] length_delete [of k "pending m"]
    by (auto simp: mailpit_inv_def distinct_delete)
  have upd: "mailpit_inv (m\<lparr>pending := AList.update k ch (pending m)\<rparr>)"
    if "map_of (pending m) k \<noteq> None" "attempts ch < mailpitMaxAttempts" for ch
    using assms that set_update_subset [of k ch "pending m"] length_update_present [OF that(1), of ch]
    by (auto simp: mailpit_inv_def distinct_update)
  show "mailpit_inv (snd (mailpit_check t k code m))"
    using del by (auto simp: mailpit_check_def Let_def intro!: upd split: option.splits)
  show "length (pending (snd (mailpit_check t k code m))) \<le> length (pending m)"
    using length_delete [of k "pending m"]
    by (auto simp: mailpit_check_def Let_def length_update_present split: option.splits)
qed

text \<open>Any sequence of checks, and what the checks of one key gave.\<close>

fun check_all :: "(int \<times> mailpitKey \<times> string) list \<Rightarrow> mailpitVerifier \<Rightarrow> (mailpitKey \<times> bool) list" where
  "check_all [] m = []"
| "check_all ((t, k, code) # cs) m =
     (case mailpit_check t k code m of (ok, m') \<Rightarrow> (k, ok) # check_all cs m')"

definition results_for :: "mailpitKey \<Rightarrow> (mailpitKey \<times> bool) list \<Rightarrow> bool list" where
  "results_for k rs = map snd (filter (\<lambda>p. fst p = k) rs)"

definition attempts_left :: "mailpitKey \<Rightarrow> mailpitVerifier \<Rightarrow> nat" where
  "attempts_left k m =
     (case map_of (pending m) k of None \<Rightarrow> 0 | Some ch \<Rightarrow> mailpitMaxAttempts - attempts ch)"

text \<open>All checks of a key fail, or exactly one succeeds, within the attempts left.\<close>

lemma check_all_results:
  assumes "mailpit_inv m"
  shows "(\<exists>j. results_for k (check_all cs m) = replicate j False)
   \<or> (\<exists>i j. i < attempts_left k m \<and>
        results_for k (check_all cs m) = replicate i False @ True # replicate j False)"
  using assms
proof (induction cs arbitrary: m)
  case Nil
  then show ?case by (simp add: results_for_def)
next
  case (Cons c cs)
  obtain t k' code where c: "c = (t, k', code)" by (cases c)
  define ok m' where m': "ok = fst (mailpit_check t k' code m)" "m' = snd (mailpit_check t k' code m)"
  have R: "results_for k (check_all (c # cs) m)
      = (if k' = k then [ok] else []) @ results_for k (check_all cs m')"
    by (simp add: c m' results_for_def split: prod.splits)
  note IH = Cons.IH [of m']
  have inv: "mailpit_inv m'" using mailpit_check_inv(1) [OF Cons.prems] by (simp add: m')
  show ?case
  proof (cases "k' = k")
    case False
    then have "attempts_left k m' = attempts_left k m"
      by (simp add: attempts_left_def m' mailpit_check_other)
    then show ?thesis using IH inv R False by simp
  next
    case True
    show ?thesis
    proof (cases ok)
      case ok: True
      have none: "attempts_left k m' = 0"
        using mailpit_check_used [of t k' code m] ok by (simp add: attempts_left_def m' True)
      obtain ch where "map_of (pending m) k = Some ch"
        using ok mailpit_check_accepts [of t k' code m] by (auto simp: m' True)
      then have "0 < attempts_left k m"
        using Cons.prems map_of_SomeD [of "pending m" k ch] by (auto simp: attempts_left_def mailpit_inv_def)
      moreover obtain j where "results_for k (check_all cs m') = replicate j False"
        using IH inv none by auto
      ultimately show ?thesis using R ok True by (intro disjI2 exI [of _ 0] exI [of _ j]) simp
    next
      case False
      then have less: "attempts_left k m' < attempts_left k m \<or> attempts_left k m' = 0"
        using mailpit_check_attempt [of t k' code m] by (auto simp: attempts_left_def m' True)
      from IH [OF inv] show ?thesis
      proof (elim disjE exE conjE)
        fix j assume "results_for k (check_all cs m') = replicate j False"
        then show ?thesis using R True False by (intro disjI1 exI [of _ "Suc j"]) simp
      next
        fix i j assume "i < attempts_left k m'"
          "results_for k (check_all cs m') = replicate i False @ True # replicate j False"
        then show ?thesis using R True False less
          by (intro disjI2 exI [of _ "Suc i"] exI [of _ j]) auto
      qed
    qed
  qed
qed

section \<open>One call\<close>

lemma mailpit_Verify_accepts:
  "fst (mailpit_Verify E x r m n) = None \<longleftrightarrow> x n = None \<and>
     (\<exists>ch. map_of (pending m) (verify_key r) = Some ch \<and> env_now E (Suc n) < expires ch
        \<and> digest ch = mailpitDigest (salt ch) (cr_Challenge r))"
  using mailpit_check_accepts [of "env_now E (Suc n)" "verify_key r" "cr_Challenge r" m]
  by (auto simp: mailpit_Verify_def split: option.splits prod.splits)

lemma mailpit_Verify_state:
  assumes "mailpit_Verify E x r m n = (e, m', n')"
  shows "n < n'" and "m' = m \<or> m' = snd (mailpit_check (env_now E (Suc n)) (verify_key r) (cr_Challenge r) m)"
  using assms by (auto simp: mailpit_Verify_def split: option.splits prod.splits if_splits)

lemma mailpit_Verify_inv:
  assumes "mailpit_Verify E x r m n = (e, m', n')" and "mailpit_inv m"
  shows "mailpit_inv m'"
  using mailpit_Verify_state(2) [OF assms(1)] mailpit_check_inv(1) [OF assms(2)] assms(2) by auto

lemma mailpit_send_cases:
  assumes "mailpit_send E c x k m n = (e, m', n')"
  obtains (failed) go where "e = Some go" "pending m' = pending m" "inFlight m' = inFlight m" "n < n'"
  | (sent) code ch where "e = None" "mailpit_prepare E n = (Some (code, ch), n + 3)" "n < n'"
      "pending m' = AList.update k ch (pending m)" "inFlight m' = inFlight m"
      "outbox m' = outbox m @ smtp_script c code"
proof (cases "mailpit_prepare E n")
  case (Pair p n1)
  show thesis
  proof (cases p)
    case None
    have "n < n1" using Pair None by (auto simp: mailpit_prepare_def Let_def split: option.splits)
    then show thesis using assms Pair None failed by (auto simp: mailpit_send_def)
  next
    case (Some q)
    obtain code ch where q: "q = (code, ch)" by (cases q)
    have n1: "n1 = n + 3" using mailpit_prepare_ok(1) Pair Some q by blast
    obtain ok m2 n2 where D: "mailpit_deliver E c x code m n1 = (ok, m2, n2)"
      by (cases "mailpit_deliver E c x code m n1")
    note S = mailpit_deliver_state [OF D]
    have e: "(e, m', n') = (if \<not> ok then (Some (ProviderErr ErrUnavailable), m2, n2)
          else (case x n2 of Some e \<Rightarrow> (Some (CtxErr e), m2, Suc n2)
                | None \<Rightarrow> (None, mailpit_install k ch m2, Suc n2)))"
      using assms by (simp add: mailpit_send_def Pair Some q D)
    show thesis
    proof (cases "ok \<and> x n2 = None")
      case True
      with e S n1 Pair Some q show thesis
        by (intro sent [of code ch]) (simp_all add: mailpit_install_def)
    next
      case False
      with e have "e \<noteq> None" "m' = m2" "n' = n2 \<or> n' = Suc n2"
        by (auto split: if_splits option.splits)
      with S n1 failed show thesis by auto
    qed
  qed
qed

text \<open>
  A call that returns without an error has mailed a fresh code and left its challenge under
  the key of the request; every other outcome leaves an error.
\<close>

lemma mailpit_SendOTP_cases:
  assumes "mailpit_SendOTP E c x r m n = (e, m', n')"
  obtains (failed) go where "e = Some go" "pending m' = pending m \<or> (\<exists>i. pending m' = fst (purge E (pending m) i))"
      "inFlight m' = inFlight m" "n < n'"
  | (sent) m1 n1 code ch where "e = None" "x n = None" "n < n1"
      "otp_Channels r = [''email'']" "validBinding (otp_Binding r)"
      "mailpit_admit E m (Suc n) = (True, m1, n1)" "mailpit_prepare E n1 = (Some (code, ch), n1 + 3)"
      "pending m' = AList.update (send_key r) ch (pending m1)" "inFlight m' = inFlight m" "n1 < n'"
      "outbox m' = outbox m @ smtp_script c code"
proof (cases "x n")
  case (Some go)
  then show thesis using assms failed by (auto simp: mailpit_SendOTP_def)
next
  case None
  show thesis
  proof (cases "otp_Channels r \<noteq> [''email''] \<or> \<not> validBinding (otp_Binding r)
          \<or> \<not> validText (otp_Identifier r) \<or> \<not> validText (otp_IdentifierType r)")
    case True
    then show thesis using assms failed None by (auto simp: mailpit_SendOTP_def)
  next
    case False
    obtain a m1 n1 where A: "mailpit_admit E m (Suc n) = (a, m1, n1)"
      by (cases "mailpit_admit E m (Suc n)")
    have m1: "pending m1 = fst (purge E (pending m) (Suc n))" "inFlight m1 = inFlight m + (if a then 1 else 0)"
      "outbox m1 = outbox m" "n < n1"
      using A purge_subset(3) [of E "pending m" "Suc n"]
      by (auto simp: mailpit_admit_def Let_def split: prod.splits if_splits)
    show thesis
    proof (cases a)
      case False
      with assms A None \<open>\<not> (otp_Channels r \<noteq> _ \<or> _)\<close> m1 failed show thesis
        by (auto simp: mailpit_SendOTP_def)
    next
      case True
      obtain e2 m2 n2 where S: "mailpit_send E c x (send_key r) m1 n1 = (e2, m2, n2)"
        by (cases "mailpit_send E c x (send_key r) m1 n1")
      have R: "e = e2" "m' = mailpit_release m2" "n' = n2"
        using assms A None True False S by (auto simp: mailpit_SendOTP_def)
      show thesis
      proof (cases rule: mailpit_send_cases [OF S])
        case (1 go)
        then show thesis using failed R m1 True by (auto simp: mailpit_release_def)
      next
        case (2 code ch)
        then show thesis using sent [of n1 m1 code ch] R m1 True False None A
          by (simp add: mailpit_release_def)
      qed
    qed
  qed
qed

lemma mailpit_SendOTP_inv:
  assumes "mailpit_SendOTP E c x r m n = (e, m', n')" and "mailpit_inv m"
  shows "mailpit_inv m'"
  using assms(1)
proof (cases rule: mailpit_SendOTP_cases)
  case (failed go)
  have "mailpit_inv m'" if "pending m' = fst (purge E (pending m) i)" for i
  proof -
    have P: "purge E (pending m) i = (pending m', snd (purge E (pending m) i))" by (simp add: that)
    show ?thesis using assms(2) purge_subset(1,2,4) [OF P] by (auto simp: mailpit_inv_def)
  qed
  moreover have "mailpit_inv m'" if "pending m' = pending m"
    using assms(2) that by (simp add: mailpit_inv_def)
  ultimately show ?thesis using failed by blast
next
  case (sent m1 n1 code ch)
  note A = mailpit_admit_inv [OF sent(6) assms(2)]
  have "mailpit_inv (mailpit_install (send_key r) ch m1)"
    using A mailpit_prepare_ok(2) [OF sent(7)]
    by (intro mailpit_install_inv) (simp_all add: mailpit_inv_def mailpitMaxAttempts_def)
  then show ?thesis using sent(8) by (simp add: mailpit_inv_def mailpit_install_def)
qed

text \<open>
  What a successful call leaves: the mail with the code, and a challenge that \<open>Verify\<close>
  accepts with that code, for the same subject and binding, until five minutes after the
  code was made. Another code is accepted only if it collides under SHA-256.
\<close>

lemma mailpit_SendOTP_then_Verify:
  assumes "mailpit_SendOTP E c x r m n = (None, m', n')"
  shows "\<exists>code sa i z. outbox m' = outbox m @ smtp_script c code \<and> length code = 6
      \<and> list_all is_digit code \<and> n \<le> i \<and> i + 2 < n'
      \<and> env_code E i = Some z \<and> digits_value code = z mod 1000000 \<and> rand_read E (i + 1) 16 = Some sa
      \<and> (\<forall>E2 y q j. verify_key q = send_key r \<longrightarrow> (fst (mailpit_Verify E2 y q m' j) = None \<longleftrightarrow> y j = None
           \<and> env_now E2 (Suc j) < env_now E (i + 2) + mailpitChallengeTTL
           \<and> sha256 (sa @ code) = sha256 (sa @ cr_Challenge q)))"
  using assms
proof (cases rule: mailpit_SendOTP_cases)
  case (sent m1 n1 code ch)
  note P = mailpit_prepare_ok [OF sent(7)]
  have d: "n1 + 3 \<le> n'"
  proof -
    have "\<exists>e2 m2. mailpit_send E c x (send_key r) m1 n1 = (e2, m2, n')"
      using assms sent by (auto simp: mailpit_SendOTP_def split: prod.splits if_splits)
    then obtain e2 m2 where S: "mailpit_send E c x (send_key r) m1 n1 = (e2, m2, n')" by blast
    obtain ok m3 n2 where D: "mailpit_deliver E c x code m1 (n1 + 3) = (ok, m3, n2)"
      by (cases "mailpit_deliver E c x code m1 (n1 + 3)")
    show ?thesis using S sent(7) mailpit_deliver_state(3) [OF D] D
      by (auto simp: mailpit_send_def split: if_splits option.splits)
  qed
  have m': "map_of (pending m') (send_key r) = Some ch"
    by (simp add: sent(8) update_conv')
  have "fst (mailpit_Verify E2 y q m' j) = None \<longleftrightarrow> y j = None
           \<and> env_now E2 (Suc j) < env_now E (n1 + 2) + mailpitChallengeTTL
           \<and> sha256 (salt ch @ code) = sha256 (salt ch @ cr_Challenge q)"
    if "verify_key q = send_key r" for E2 y q j
    using that by (simp add: mailpit_Verify_accepts m' P(3,4) mailpitDigest_def)
  moreover obtain z where "env_code E n1 = Some z" "digits_value code = z mod 1000000"
    "rand_read E (n1 + 1) 16 = Some (salt ch)"
    using mailpit_prepare_random [OF sent(7)] by blast
  ultimately show ?thesis
    using sent(3,11) P(6,7) d
    by (intro exI [of _ code] exI [of _ "salt ch"] exI [of _ n1] exI [of _ z]) simp
qed simp

text \<open>An address that validates holds no line break, so the mail has exactly its own lines.\<close>

lemma validMailAddress_line:
  assumes "validMailAddress a"
  shows "CHR 0x0A \<notin> set a" and "CHR 0x0D \<notin> set a"
proof -
  have "list_all (\<lambda>r. 33 \<le> r \<and> r \<le> 126) (runes a)"
    using assms by (auto simp: validMailAddress_def split: if_splits)
  then have b: "\<forall>c \<in> set a. 33 \<le> byte c"
    using runes_all_ascii [of "\<lambda>r. 33 \<le> r \<and> r \<le> 126" a] by (auto simp: list_all_iff)
  show "CHR 0x0A \<notin> set a" "CHR 0x0D \<notin> set a" using b by auto
qed

lemma digits_no_newline: "list_all is_digit code \<Longrightarrow> CHR 0x0A \<notin> set code"
  by (auto simp: list_all_iff is_digit_def)

lemma mail_lines:
  assumes "validMailAddress (Sender c)" and "validMailAddress (Recipient c)" and "list_all is_digit code"
  shows "split_on (CHR 0x0A) (mail_text c code) =
    [''From: '' @ Sender c @ [CHR 0x0D], ''To: '' @ Recipient c @ [CHR 0x0D],
     ''Subject: Synthetic eSignet code'' @ [CHR 0x0D], [CHR 0x0D],
     ''Your synthetic login code is '' @ code @ [CHR 0x0D], []]"
proof -
  let ?ls = "[''From: '' @ Sender c @ [CHR 0x0D], ''To: '' @ Recipient c @ [CHR 0x0D],
     ''Subject: Synthetic eSignet code'' @ [CHR 0x0D], [CHR 0x0D],
     ''Your synthetic login code is '' @ code @ [CHR 0x0D], []]"
  have "mail_text c code = join [CHR 0x0A] ?ls" by (simp add: mail_text_def)
  moreover have "\<forall>l \<in> set ?ls. CHR 0x0A \<notin> set l"
    using validMailAddress_line(1) [OF assms(1)] validMailAddress_line(1) [OF assms(2)]
      digits_no_newline [OF assms(3)] by simp
  ultimately show ?thesis using split_on_join [of ?ls "CHR 0x0A"] by simp
qed

section \<open>The contract\<close>

definition mailpit_good :: "env \<Rightarrow> ChallengeRequest \<Rightarrow> mailpitVerifier \<Rightarrow> nat \<Rightarrow> bool" where
  "mailpit_good E r m n \<longleftrightarrow> (\<exists>ch. map_of (pending m) (verify_key r) = Some ch
     \<and> env_now E (Suc n) < expires ch \<and> digest ch = mailpitDigest (salt ch) (cr_Challenge r))"

interpretation mailpit_cv: challenge_verifier "mailpit_Verify E" "mailpit_SendOTP E c" "mailpit_good E"
  for E c
proof unfold_locales
  fix x r v n e v' n'
  show "mailpit_Verify E x r v n = (e, v', n') \<Longrightarrow> n \<le> n'"
    by (drule mailpit_Verify_state(1)) simp
  show "mailpit_SendOTP E c x q v n = (e, v', n') \<Longrightarrow> n \<le> n'" for q
    by (erule mailpit_SendOTP_cases) simp_all
  show "x n \<noteq> None \<Longrightarrow> fst (mailpit_Verify E x r v n) \<noteq> None"
    by (simp add: mailpit_Verify_accepts)
  show "x n \<noteq> None \<Longrightarrow> fst (mailpit_SendOTP E c x q v n) \<noteq> None" for q
    by (auto simp: mailpit_SendOTP_def)
  show "mailpit_Verify E x r v n = (None, v', n') \<Longrightarrow> mailpit_good E r v n"
    using mailpit_Verify_accepts [of E x r v n] by (simp add: mailpit_good_def)
qed

section \<open>Any number of calls\<close>

text \<open>
  The phases of a \<open>SendOTP\<close> call after it was admitted, and the steps calls make between
  two of their critical sections. The calls in progress are a multiset: they are told apart
  only by their phase.
\<close>

datatype sender =
  Admitted mailpitKey | Prepared mailpitKey string mailpitChallenge
| Mailed mailpitKey mailpitChallenge | Leaving

record mailpit_machine =
  verifier :: mailpitVerifier
  senders :: "sender multiset"

inductive mp_step :: "env \<Rightarrow> MailpitConfig \<Rightarrow> mailpit_machine \<Rightarrow> mailpit_machine \<Rightarrow> bool"
  for E :: env and c :: MailpitConfig where
  refuse: "mailpit_admit E (verifier w) n = (False, m, n') \<Longrightarrow> mp_step E c w (w\<lparr>verifier := m\<rparr>)"
| admit: "mailpit_admit E (verifier w) n = (True, m, n')
    \<Longrightarrow> mp_step E c w (w\<lparr>verifier := m, senders := add_mset (Admitted k) (senders w)\<rparr>)"
| prepare_fail: "senders w = add_mset (Admitted k) S \<Longrightarrow> mailpit_prepare E n = (None, n')
    \<Longrightarrow> mp_step E c w (w\<lparr>senders := add_mset Leaving S\<rparr>)"
| prepare: "senders w = add_mset (Admitted k) S \<Longrightarrow> mailpit_prepare E n = (Some (code, ch), n')
    \<Longrightarrow> mp_step E c w (w\<lparr>senders := add_mset (Prepared k code ch) S\<rparr>)"
| deliver_fail: "senders w = add_mset (Prepared k code ch) S
    \<Longrightarrow> mailpit_deliver E c x code (verifier w) n = (False, m, n')
    \<Longrightarrow> mp_step E c w (w\<lparr>verifier := m, senders := add_mset Leaving S\<rparr>)"
| deliver: "senders w = add_mset (Prepared k code ch) S
    \<Longrightarrow> mailpit_deliver E c x code (verifier w) n = (True, m, n')
    \<Longrightarrow> mp_step E c w (w\<lparr>verifier := m, senders := add_mset (Mailed k ch) S\<rparr>)"
| cancel: "senders w = add_mset (Mailed k ch) S \<Longrightarrow> mp_step E c w (w\<lparr>senders := add_mset Leaving S\<rparr>)"
| install: "senders w = add_mset (Mailed k ch) S
    \<Longrightarrow> mp_step E c w (w\<lparr>verifier := mailpit_install k ch (verifier w), senders := add_mset Leaving S\<rparr>)"
| release: "senders w = add_mset Leaving S
    \<Longrightarrow> mp_step E c w (w\<lparr>verifier := mailpit_release (verifier w), senders := S\<rparr>)"
| check: "mp_step E c w (w\<lparr>verifier := snd (mailpit_check t k code (verifier w))\<rparr>)"

inductive mp_reachable :: "env \<Rightarrow> MailpitConfig \<Rightarrow> mailpit_machine \<Rightarrow> bool"
  for E :: env and c :: MailpitConfig where
  start: "mp_reachable E c \<lparr>verifier = newMailpitVerifier, senders = {#}\<rparr>"
| step: "mp_reachable E c w \<Longrightarrow> mp_step E c w w' \<Longrightarrow> mp_reachable E c w'"

fun fresh_sender :: "sender \<Rightarrow> bool" where
  "fresh_sender (Prepared k code ch) = (attempts ch = 0)"
| "fresh_sender (Mailed k ch) = (attempts ch = 0)"
| "fresh_sender _ = True"

text \<open>
  Every call that may still install a challenge holds a place, so the pending challenges
  never exceed the capacity, even while calls that have installed have not yet left.
\<close>

definition mp_inv :: "mailpit_machine \<Rightarrow> bool" where
  "mp_inv w \<longleftrightarrow> mailpit_inv (verifier w)
     \<and> inFlight (verifier w) = size (senders w)
     \<and> length (pending (verifier w)) + size (filter_mset (\<lambda>x. x \<noteq> Leaving) (senders w)) \<le> mailpitMaxPending
     \<and> (\<forall>x \<in># senders w. fresh_sender x)"

lemma mp_step_inv:
  assumes "mp_step E c w w'" and "mp_inv w"
  shows "mp_inv w'"
  using assms
proof (cases rule: mp_step.cases)
  case (refuse n m n')
  have "length (pending m) \<le> length (pending (verifier w))"
    using refuse(2) purge_subset(2) [of E "pending (verifier w)" n]
    by (auto simp: mailpit_admit_def Let_def split: prod.splits if_splits)
  then show ?thesis using assms(2) refuse mailpit_admit_inv [OF refuse(2)] by (simp add: mp_inv_def)
next
  case (admit n m n' k)
  have len: "length (pending m) \<le> length (pending (verifier w))"
    using admit(2) purge_subset(2) [of E "pending (verifier w)" n]
    by (auto simp: mailpit_admit_def Let_def split: prod.splits if_splits)
  note A = mailpit_admit_inv [OF admit(2)]
  have "mailpit_inv m" "inFlight m = Suc (size (senders w))"
    "length (pending m) + Suc (size (senders w)) \<le> mailpitMaxPending"
    using A assms(2) by (simp_all add: mp_inv_def)
  moreover from this(3) have
    "Suc (length (pending m) + size (filter_mset (\<lambda>x. x \<noteq> Leaving) (senders w))) \<le> mailpitMaxPending"
    using size_filter_mset_lesseq [of "\<lambda>x. x \<noteq> Leaving" "senders w"] by linarith
  ultimately show ?thesis using assms(2) admit(1) by (auto simp: mp_inv_def)
next
  case (prepare k S n code ch n')
  then show ?thesis using assms(2) mailpit_prepare_ok(2) by (auto simp: mp_inv_def)
next
  case (deliver_fail k code ch S x n m n')
  then show ?thesis using assms(2) mailpit_deliver_state(1,2) [OF deliver_fail(3)]
    by (simp add: mp_inv_def mailpit_inv_def)
next
  case (deliver k code ch S x n m n')
  then show ?thesis using assms(2) mailpit_deliver_state(1,2) [OF deliver(3)]
    by (simp add: mp_inv_def mailpit_inv_def)
next
  case (install k ch S)
  have "mailpit_inv (mailpit_install k ch (verifier w))"
    using assms(2) install by (intro mailpit_install_inv) (auto simp: mp_inv_def mailpitMaxAttempts_def)
  moreover have "length (pending (mailpit_install k ch (verifier w))) \<le> Suc (length (pending (verifier w)))"
    by (simp add: mailpit_install_def length_update)
  ultimately show ?thesis using assms(2) install by (simp add: mp_inv_def mailpit_install_def)
next
  case (release S)
  then show ?thesis using assms(2) by (simp add: mp_inv_def mailpit_inv_def mailpit_release_def)
next
  case (check t k code)
  then show ?thesis using assms(2) mailpit_check_inv [of "verifier w" t k code] by (simp add: mp_inv_def)
qed (auto simp: mp_inv_def)

lemma mp_reachable_inv: "mp_reachable E c w \<Longrightarrow> mp_inv w"
proof (induction rule: mp_reachable.induct)
  case start
  show ?case by (simp add: mp_inv_def mailpit_inv_new) (simp add: newMailpitVerifier_def)
next
  case (step w w')
  then show ?case by (blast intro: mp_step_inv)
qed

end
