(* ===== verification/Provider.thy ===== *)
theory Provider
  imports Http Mailpit
begin

text \<open>
  \<open>provider/provider.go\<close>: construction, challenge authentication, the authentication
  context and its restoration, subject identifiers and consented attributes.
\<close>

definition contextTTL :: int where
  "contextTTL = 300 * second"

section \<open>Construction\<close>

text \<open>
  The verifier \<open>New\<close> settles on: the one an option supplied, the Mailpit verifier with its
  configuration and timeout, or the static one with its OTP. The HTTP client: its timeout,
  what it does with a redirect, and the file its roots were extended with.
\<close>

datatype verifier_choice = Supplied | MailpitVerifier MailpitConfig int | StaticVerifier string

record http_client =
  ClientTimeout :: int
  FollowRedirects :: bool
  RootFile :: "string option"

text \<open>
  \<open>supplied\<close>: an option gave a verifier. \<open>appends\<close>: the certificate pool took at least one
  certificate from the bytes (\<open>AppendCertsFromPEM\<close>).
\<close>

definition choose_verifier :: "(string \<Rightarrow> file_data) \<Rightarrow> Config \<Rightarrow> bool \<Rightarrow> string + verifier_choice" where
  "choose_verifier fs c supplied =
     (if supplied then Inr Supplied
      else if mp_Enabled (Mailpit (Demo c)) then
        Inr (MailpitVerifier (Mailpit (Demo c)) (TimeoutSeconds (HTTP c) * second))
      else if \<not> StaticOTPEnabled (Demo c) then Inl ''production challenge verifier required''
      else (case readBounded fs (StaticOTPFile (Demo c)) 1024 of
         Inl _ \<Rightarrow> Inl ''demo OTP file invalid''
       | Inr otp \<Rightarrow> if trim_space otp = [] then Inl ''demo OTP file invalid''
                    else Inr (StaticVerifier (trim_space otp))))"

definition client_roots :: "(string \<Rightarrow> file_data) \<Rightarrow> (string \<Rightarrow> bool) \<Rightarrow> Config
    \<Rightarrow> string + string option" where
  "client_roots fs appends c =
     (if CAFile (HTTP c) = [] then Inr None
      else (case readBounded fs (CAFile (HTTP c)) (2 ^ 20) of
         Inl _ \<Rightarrow> Inl ''CA file unavailable''
       | Inr b \<Rightarrow> if \<not> appends b then Inl ''CA file invalid'' else Inr (Some (CAFile (HTTP c)))))"

definition new_with :: "crypto_lib \<Rightarrow> (string \<Rightarrow> file_data) \<Rightarrow> (string \<Rightarrow> bool) \<Rightarrow> bool \<Rightarrow> Config
    \<Rightarrow> string + provider \<times> verifier_choice \<times> http_client" where
  "new_with cl fs appends supplied c = (case validate c of
     Inl e \<Rightarrow> Inl e
   | Inr _ \<Rightarrow> (case choose_verifier fs c supplied of
       Inl e \<Rightarrow> Inl e
     | Inr v \<Rightarrow> (case readBounded fs (PSUTSecretFile c) 4096 of
         Inl _ \<Rightarrow> Inl ''PSUT secret file must contain at least 32 bytes''
       | Inr sec \<Rightarrow>
           if length sec < 32 then Inl ''PSUT secret file must contain at least 32 bytes''
           else (case loadKey cl fs (PrivateKeyFile (TokenClient c)) (KeyID (TokenClient c)) of
             None \<Rightarrow> Inl ''token client signing key invalid''
           | Some k \<Rightarrow> (case client_roots fs appends c of
               Inl e \<Rightarrow> Inl e
             | Inr roots \<Rightarrow>
                 Inr (\<lparr>config = c, secret = sec, key = k\<rparr>, v,
                   \<lparr>ClientTimeout = TimeoutSeconds (HTTP c) * second, FollowRedirects = False,
                    RootFile = roots\<rparr>))))))"

definition New :: "crypto_lib \<Rightarrow> (string \<Rightarrow> file_data) \<Rightarrow> (string \<Rightarrow> bool) \<Rightarrow> bool \<Rightarrow> Config
    \<Rightarrow> string + provider \<times> verifier_choice \<times> http_client" where
  "New cl fs appends supplied c = new_with cl fs appends supplied (defaults c)"

section \<open>The authentication context\<close>

record authContext =
  ac_Version :: int
  ac_Identifier :: string
  ac_IdentifierType :: string
  ac_RelyingPartyID :: string
  ac_ClientID :: string
  ac_TransactionID :: string
  ac_IssuedAt :: int
  ac_ExpiresAt :: int

definition no_context :: authContext where
  "no_context = \<lparr>ac_Version = 0, ac_Identifier = [], ac_IdentifierType = [], ac_RelyingPartyID = [],
     ac_ClientID = [], ac_TransactionID = [], ac_IssuedAt = 0, ac_ExpiresAt = 0\<rparr>"

text \<open>\<open>json.Marshal\<close> prints a struct in the order of its fields.\<close>

definition context_json :: "authContext \<Rightarrow> json" where
  "context_json s = JObj
     [(''version'', JNum (show_int (ac_Version s))), (''subject_locator'', JStr (ac_Identifier s)),
      (''subject_type'', JStr (ac_IdentifierType s)), (''relying_party_id'', JStr (ac_RelyingPartyID s)),
      (''client_id'', JStr (ac_ClientID s)), (''transaction_id'', JStr (ac_TransactionID s)),
      (''issued_at'', JNum (show_int (ac_IssuedAt s))), (''expires_at'', JNum (show_int (ac_ExpiresAt s)))]"

definition context_fields :: "string list" where
  "context_fields = [''version'', ''subject_locator'', ''subject_type'', ''relying_party_id'',
     ''client_id'', ''transaction_id'', ''issued_at'', ''expires_at'']"

text \<open>One member into the struct, unknown fields disallowed.\<close>

definition context_member :: "string \<times> json \<Rightarrow> authContext \<Rightarrow> authContext option" where
  "context_member m s = (case m of (k, v) \<Rightarrow> (case match_field context_fields k of
     None \<Rightarrow> None
   | Some f \<Rightarrow>
       if f = ''version'' then map_option (\<lambda>x. s\<lparr>ac_Version := x\<rparr>) (decode_int_field v (ac_Version s))
       else if f = ''subject_locator'' then
         map_option (\<lambda>x. s\<lparr>ac_Identifier := x\<rparr>) (decode_string_field v (ac_Identifier s))
       else if f = ''subject_type'' then
         map_option (\<lambda>x. s\<lparr>ac_IdentifierType := x\<rparr>) (decode_string_field v (ac_IdentifierType s))
       else if f = ''relying_party_id'' then
         map_option (\<lambda>x. s\<lparr>ac_RelyingPartyID := x\<rparr>) (decode_string_field v (ac_RelyingPartyID s))
       else if f = ''client_id'' then
         map_option (\<lambda>x. s\<lparr>ac_ClientID := x\<rparr>) (decode_string_field v (ac_ClientID s))
       else if f = ''transaction_id'' then
         map_option (\<lambda>x. s\<lparr>ac_TransactionID := x\<rparr>) (decode_string_field v (ac_TransactionID s))
       else if f = ''issued_at'' then
         map_option (\<lambda>x. s\<lparr>ac_IssuedAt := x\<rparr>) (decode_int_field v (ac_IssuedAt s))
       else map_option (\<lambda>x. s\<lparr>ac_ExpiresAt := x\<rparr>) (decode_int_field v (ac_ExpiresAt s))))"

definition decode_context :: "string \<Rightarrow> authContext option" where
  "decode_context raw = (case decode_first raw of
     None \<Rightarrow> None | Some (v, _) \<Rightarrow> decode_struct context_member v no_context)"

text \<open>
  A \<open>map[string]any\<close> a caller hands over: nil, one that holds a value \<open>Marshal\<close> refuses, or
  an object. \<open>Unmarshal\<close> into such a map gives the canonical object. A number it decodes is
  a float64; the integers here are Unix seconds, below 2^53, which a float64 holds exactly
  and \<open>Marshal\<close> prints back as the same digits.
\<close>

datatype go_map = NilMap | NoJson | GoMap goobj

definition unmarshal_map :: "string \<Rightarrow> go_map" where
  "unmarshal_map b = (case parse_doc b of
     Some (JObj ms) \<Rightarrow> GoMap (canon_members (map (\<lambda>m. (fst m, any_of (snd m))) ms))
   | _ \<Rightarrow> NilMap)"

definition validSubject :: "provider \<Rightarrow> string \<Rightarrow> string \<Rightarrow> bool" where
  "validSubject P uid kind \<longleftrightarrow> validText uid \<and> kind = SubjectIDType (config P)"

definition psut_tuple :: "authContext \<Rightarrow> string" where
  "psut_tuple s = marshal (JArr [JStr ''registry-psut-v1'', JStr (ac_RelyingPartyID s),
     JStr (ac_ClientID s), JStr (ac_IdentifierType s), JStr (ac_Identifier s)])"

definition psut :: "provider \<Rightarrow> authContext \<Rightarrow> string" where
  "psut P s = raw_url_base64 (hmac_sha256 (secret P) (psut_tuple s))"

text \<open>The checks after the clock was read.\<close>

definition context_times :: "authContext \<Rightarrow> int \<Rightarrow> provider_error + authContext" where
  "context_times s t =
     (if ac_IssuedAt s \<le> 0 \<or> t < ac_IssuedAt s \<or> ac_ExpiresAt s \<le> ac_IssuedAt s
         \<or> contextTTL div second < ac_ExpiresAt s - ac_IssuedAt s then Inl ErrContextInvalid
      else if ac_ExpiresAt s \<le> t then Inl ErrContextExpired
      else Inr s)"

definition context_bound :: "provider \<Rightarrow> authContext \<Rightarrow> Binding \<Rightarrow> bool" where
  "context_bound P s b \<longleftrightarrow> ac_Version s = 1 \<and> validSubject P (ac_Identifier s) (ac_IdentifierType s)
     \<and> ac_RelyingPartyID s = RelyingPartyID b \<and> ac_ClientID s = ClientID b
     \<and> ac_TransactionID s = TransactionID b"

definition restore :: "env \<Rightarrow> provider \<Rightarrow> go_map \<Rightarrow> Binding \<Rightarrow> pstate \<Rightarrow> authContext io" where
  "restore E P state b s = (case state of
     NilMap \<Rightarrow> (Inl ErrContextInvalid, s)
   | NoJson \<Rightarrow> (Inl ErrContextInvalid, s)
   | GoMap ms \<Rightarrow>
       if \<not> validBinding b then (Inl ErrContextInvalid, s)
       else (let raw = marshal (JObj ms)
             in if 32 * 1024 < length raw then (Inl ErrContextInvalid, s)
                else (case decode_context raw of
                  None \<Rightarrow> (Inl ErrContextInvalid, s)
                | Some a \<Rightarrow>
                    if \<not> context_bound P a b then (Inl ErrContextInvalid, s)
                    else (case now E s of (t, s') \<Rightarrow> (context_times a (unix t), s')))))"

section \<open>Authentication\<close>

text \<open>The identity record must hold every account-check field, and the selector's value.\<close>

definition account_ok :: "Config \<Rightarrow> string \<Rightarrow> goobj \<Rightarrow> bool" where
  "account_ok c uid data \<longleftrightarrow>
     list_all (\<lambda>f. case map_of data f of None \<Rightarrow> False | Some v \<Rightarrow> v \<noteq> JNull) (AccountCheckFields (BREG c))
     \<and> (case map_of data (SelectorField (BREG c)) of None \<Rightarrow> True | Some v \<Rightarrow> v = JStr uid)"

definition issued_context :: "ChallengeRequest \<Rightarrow> int \<Rightarrow> authContext" where
  "issued_context r t = \<lparr>ac_Version = 1, ac_Identifier = cr_Identifier r,
     ac_IdentifierType = cr_IdentifierType r, ac_RelyingPartyID = RelyingPartyID (cr_Binding r),
     ac_ClientID = ClientID (cr_Binding r), ac_TransactionID = TransactionID (cr_Binding r),
     ac_IssuedAt = unix t, ac_ExpiresAt = unix (t + contextTTL)\<rparr>"

text \<open>The part of \<open>Authenticate\<close> after the challenge was accepted.\<close>

definition auth_finish :: "env \<Rightarrow> provider \<Rightarrow> ChallengeRequest \<Rightarrow> pstate \<Rightarrow> go_map AuthenticationResult io"
where
  "auth_finish E P r s =
     (case lookup E P (cr_Identifier r) (AccountCheckFields (BREG (config P))) s of
        (Inl e, s1) \<Rightarrow> (Inl e, s1)
      | (Inr data, s1) \<Rightarrow>
          if \<not> account_ok (config P) (cr_Identifier r) data then fails s1
          else (case now E s1 of (t, s2) \<Rightarrow>
            (let a = issued_context r t
             in (Inr \<lparr>ar_Subject = psut P a, ar_Context = unmarshal_map (marshal (context_json a))\<rparr>, s2))))"

definition is_ctx_error :: "go_error option \<Rightarrow> bool" where
  "is_ctx_error e = (case e of Some (CtxErr _) \<Rightarrow> True | _ \<Rightarrow> False)"

definition valid_request :: "provider \<Rightarrow> ChallengeRequest \<Rightarrow> bool" where
  "valid_request P r \<longleftrightarrow> validSubject P (cr_Identifier r) (cr_IdentifierType r)
     \<and> validBinding (cr_Binding r) \<and> validText (cr_Challenge r)"

definition Authenticate :: "env \<Rightarrow> provider \<Rightarrow> 'v ChallengeVerifier \<Rightarrow> ChallengeRequest \<Rightarrow> 'v \<Rightarrow> pstate
    \<Rightarrow> (provider_error + go_map AuthenticationResult) \<times> 'v \<times> pstate" where
  "Authenticate E P cv r v s =
     (if \<not> valid_request P r then (Inl ErrInvalidRequest, v, s)
      else case ctx_done E s of (stop, s1) \<Rightarrow>
        if stop then (Inl ErrUnavailable, v, s1)
        else (case Verify cv (call_ctx E) r v (tick s1) of (e, v', n) \<Rightarrow>
          (let s2 = s1\<lparr>tick := Suc n\<rparr>
           in if call_ctx E n \<noteq> None \<or> is_ctx_error e then (Inl ErrUnavailable, v', s2)
              else if e \<noteq> None then (Inl ErrChallengeFailed, v', s2)
              else (case auth_finish E P r s2 of (q, s3) \<Rightarrow> (q, v', s3)))))"

section \<open>One-time passwords\<close>

definition SendOTP :: "env \<Rightarrow> provider \<Rightarrow> 'v ChallengeVerifier \<Rightarrow> OTPRequest \<Rightarrow> 'v \<Rightarrow> pstate
    \<Rightarrow> provider_error option \<times> 'v \<times> pstate" where
  "SendOTP E P cv r v s =
     (if \<not> validSubject P (otp_Identifier r) (otp_IdentifierType r) \<or> \<not> validBinding (otp_Binding r)
         \<or> otp_Channels r = [] then (Some ErrInvalidRequest, v, s)
      else if \<not> list_all (\<lambda>ch. \<not> (ch \<noteq> ''email'' \<and> ch \<noteq> ''phone'')) (otp_Channels r)
        then (Some ErrInvalidRequest, v, s)
      else (case VerifierSendOTP cv (call_ctx E) r v (tick s) of (e, v', n) \<Rightarrow>
        (if e \<noteq> None then (Some ErrUnavailable, v', s\<lparr>tick := n\<rparr>)
         else if call_ctx E n \<noteq> None then (Some ErrUnavailable, v', s\<lparr>tick := Suc n\<rparr>)
         else (None, v', s\<lparr>tick := Suc n\<rparr>))))"

definition SupportedOTPChannels :: "provider \<Rightarrow> string list" where
  "SupportedOTPChannels P =
     (if mp_Enabled (Mailpit (Demo (config P))) then [''email''] else [''email'', ''phone''])"

section \<open>Claims\<close>

definition SupportedClaims :: "provider \<Rightarrow> string list" where
  "SupportedClaims P = sort (map fst (filter
     (\<lambda>(k, v). v = ''$psut'' \<or> contains (ProvisionedFields (BREG (config P))) v) (ClaimMap (config P))))"

text \<open>The fields the approved claims need, each once, in the order they are first needed.\<close>

fun needed_fields :: "Config \<Rightarrow> string list \<Rightarrow> string list \<Rightarrow> string list" where
  "needed_fields c [] acc = acc"
| "needed_fields c (claim # rest) acc = needed_fields c rest
     (case map_of (ClaimMap c) claim of
        Some source \<Rightarrow>
          if source \<noteq> ''$psut'' \<and> contains (ProvisionedFields (BREG c)) source \<and> \<not> contains acc source
          then acc @ [source] else acc
      | None \<Rightarrow> acc)"

text \<open>The loop that fills the result, as the list of its assignments.\<close>

fun claim_values :: "Config \<Rightarrow> string list \<Rightarrow> goobj \<Rightarrow> string \<Rightarrow> string list \<Rightarrow> goobj" where
  "claim_values c names vals subject [] = []"
| "claim_values c names vals subject (claim # rest) =
     (case map_of (ClaimMap c) claim of
        None \<Rightarrow> []
      | Some source \<Rightarrow>
          if source = ''$psut'' then [(claim, JStr subject)]
          else if contains names source then
            (case map_of vals source of Some v \<Rightarrow> [(claim, v)] | None \<Rightarrow> [])
          else [])
     @ claim_values c names vals subject rest"

text \<open>\<open>approved\<close> is \<open>None\<close> for a nil slice.\<close>

definition GetAttributes :: "env \<Rightarrow> provider \<Rightarrow> go_map \<Rightarrow> Binding \<Rightarrow> string list option \<Rightarrow> pstate \<Rightarrow> goobj io"
where
  "GetAttributes E P state b approved s = (case approved of
     None \<Rightarrow> (Inl ErrInvalidRequest, s)
   | Some claims \<Rightarrow> (case restore E P state b s of
       (Inl e, s1) \<Rightarrow> (Inl e, s1)
     | (Inr a, s1) \<Rightarrow>
         (let names = needed_fields (config P) claims []
          in case (if names \<noteq> [] then lookup E P (ac_Identifier a) names s1 else (Inr [], s1)) of
               (Inl e, s2) \<Rightarrow> (Inl e, s2)
             | (Inr vals, s2) \<Rightarrow>
                 (Inr (canon_members (claim_values (config P) names vals (psut P a) claims)), s2))))"

definition Subject :: "env \<Rightarrow> provider \<Rightarrow> go_map \<Rightarrow> Binding \<Rightarrow> pstate \<Rightarrow> string io" where
  "Subject E P state b s = (case ctx_done E s of (stop, s1) \<Rightarrow>
     if stop then fails s1
     else (case restore E P state b s1 of
       (Inl e, s2) \<Rightarrow> (Inl e, s2)
     | (Inr a, s2) \<Rightarrow> (Inr (psut P a), s2)))"

definition String :: "provider \<Rightarrow> string" where
  "String P = ''registry identity provider''"

definition GoString :: "provider \<Rightarrow> string" where
  "GoString P = String P"

section \<open>The context survives its trip through the session\<close>

text \<open>The members of the map a context becomes, in the order \<open>Marshal\<close> prints them.\<close>

definition context_map :: "authContext \<Rightarrow> goobj" where
  "context_map s =
     [(''client_id'', JStr (ac_ClientID s)), (''expires_at'', JNum (show_int (ac_ExpiresAt s))),
      (''issued_at'', JNum (show_int (ac_IssuedAt s))),
      (''relying_party_id'', JStr (ac_RelyingPartyID s)),
      (''subject_locator'', JStr (ac_Identifier s)), (''subject_type'', JStr (ac_IdentifierType s)),
      (''transaction_id'', JStr (ac_TransactionID s)), (''version'', JNum (show_int (ac_Version s)))]"

text \<open>The texts with every byte that is not UTF-8 replaced by U+FFFD, as \<open>Marshal\<close> does.\<close>

definition clean_context :: "authContext \<Rightarrow> authContext" where
  "clean_context s = s\<lparr>ac_Identifier := sanitize (ac_Identifier s),
     ac_IdentifierType := sanitize (ac_IdentifierType s),
     ac_RelyingPartyID := sanitize (ac_RelyingPartyID s), ac_ClientID := sanitize (ac_ClientID s),
     ac_TransactionID := sanitize (ac_TransactionID s)\<rparr>"

definition valid_context_text :: "authContext \<Rightarrow> bool" where
  "valid_context_text s \<longleftrightarrow> valid_utf8 (ac_Identifier s) \<and> valid_utf8 (ac_IdentifierType s)
     \<and> valid_utf8 (ac_RelyingPartyID s) \<and> valid_utf8 (ac_ClientID s) \<and> valid_utf8 (ac_TransactionID s)"

definition int64 :: "int \<Rightarrow> bool" where
  "int64 i \<longleftrightarrow> - (2 ^ 63) \<le> i \<and> i < 2 ^ 63"

definition context_ints :: "authContext \<Rightarrow> bool" where
  "context_ints s \<longleftrightarrow> int64 (ac_Version s) \<and> int64 (ac_IssuedAt s) \<and> int64 (ac_ExpiresAt s)"

lemma clean_context_valid: "valid_context_text s \<Longrightarrow> clean_context s = s"
  by (simp add: valid_context_text_def clean_context_def sanitize_valid)

lemma parse_context_json:
  "parse_doc (marshal (context_json s)) = Some (context_json (clean_context s))"
  by (subst parse_doc_marshal)
    (simp_all add: context_json_def clean_context_def max_nesting_def number_ok_show_int sanitize_ascii)

lemma unmarshal_context:
  "unmarshal_map (marshal (context_json s)) = GoMap (context_map (clean_context s))"
  by (simp add: unmarshal_map_def parse_context_json)
    (simp add: context_json_def context_map_def canon_members_def less_char_def less_eq_char_def)

lemma decode_int_show: "int64 i \<Longrightarrow> decode_int_field (JNum (show_int i)) c = Some i"
  by (simp add: int64_def parse_int_show_int)

lemma decode_context_map:
  assumes "context_ints s"
  shows "decode_context (marshal (JObj (context_map s))) = Some (clean_context s)"
proof -
  have c: "clean (JObj (context_map s)) = JObj (context_map (clean_context s))"
    by (simp add: context_map_def clean_context_def sanitize_ascii)
  have "decode_first (marshal (JObj (context_map s)) @ []) = Some (JObj (context_map (clean_context s)), [])"
    by (subst decode_first_marshal)
      (simp_all only: c, simp_all add: context_map_def max_nesting_def number_ok_show_int)
  then have "decode_context (marshal (JObj (context_map s)))
      = fold_members context_member (context_map (clean_context s)) no_context"
    by (simp add: decode_context_def decode_struct_def)
  also have "\<dots> = Some (clean_context s)"
    using assms unfolding context_map_def context_ints_def
    by (simp add: context_member_def context_fields_def clean_context_def decode_int_show
        no_context_def del: decode_int_field.simps)
  finally show ?thesis .
qed

section \<open>Restoring\<close>

lemma restore_state [simp]:
  "sent (snd (restore E P state b s)) = sent s" "token (snd (restore E P state b s)) = token s"
  "tokenDeadline (snd (restore E P state b s)) = tokenDeadline s"
  "tick s \<le> tick (snd (restore E P state b s))"
  by (auto simp: restore_def Let_def now_def split: go_map.splits option.splits)

lemma restore_errors:
  assumes "fst (restore E P state b s) = Inl e"
  shows "e \<in> {ErrContextInvalid, ErrContextExpired}"
  using assms
  by (auto simp: restore_def Let_def now_def context_times_def split: go_map.splits option.splits if_splits)

text \<open>What a restored context satisfies, and the instant it was live at.\<close>

lemma restore_ok:
  assumes "restore E P state b s = (Inr a, s')"
  shows "\<exists>ms. state = GoMap ms \<and> decode_context (marshal (JObj ms)) = Some a
      \<and> length (marshal (JObj ms)) \<le> 32 * 1024"
    and "validBinding b" and "context_bound P a b" and "s' = s\<lparr>tick := Suc (tick s)\<rparr>"
    and "0 < ac_IssuedAt a" and "ac_IssuedAt a \<le> unix (env_now E (tick s))"
    and "unix (env_now E (tick s)) < ac_ExpiresAt a" and "ac_ExpiresAt a - ac_IssuedAt a \<le> 300"
proof -
  have "(\<exists>ms. state = GoMap ms \<and> decode_context (marshal (JObj ms)) = Some a
      \<and> length (marshal (JObj ms)) \<le> 32 * 1024)
    \<and> validBinding b \<and> context_bound P a b \<and> s' = s\<lparr>tick := Suc (tick s)\<rparr>
    \<and> context_times a (unix (env_now E (tick s))) = Inr a"
    using assms
    by (auto simp: restore_def Let_def now_def context_times_def split: go_map.splits option.splits if_splits)
  then show "\<exists>ms. state = GoMap ms \<and> decode_context (marshal (JObj ms)) = Some a
      \<and> length (marshal (JObj ms)) \<le> 32 * 1024"
    "validBinding b" "context_bound P a b" "s' = s\<lparr>tick := Suc (tick s)\<rparr>"
    "0 < ac_IssuedAt a" "ac_IssuedAt a \<le> unix (env_now E (tick s))"
    "unix (env_now E (tick s)) < ac_ExpiresAt a" "ac_ExpiresAt a - ac_IssuedAt a \<le> 300"
    by (auto simp: context_times_def contextTTL_def second_def split: if_splits)
qed

lemma restore_context_map:
  assumes "context_ints a" and "valid_context_text a" and "validBinding b" and "context_bound P a b"
    and "length (marshal (JObj (context_map a))) \<le> 32 * 1024"
  shows "restore E P (GoMap (context_map a)) b s
    = (context_times a (unix (env_now E (tick s))), s\<lparr>tick := Suc (tick s)\<rparr>)"
  using assms decode_context_map [OF assms(1)] clean_context_valid [OF assms(2)]
  by (simp add: restore_def Let_def now_def)

section \<open>Subject identifiers\<close>

lemma length_psut: "length (psut P a) = 43"
  by (simp add: psut_def length_raw_url_base64)

lemma psut_nonempty [simp]: "psut P a \<noteq> []"
  using length_psut [of P a] by (metis list.size(3) zero_neq_numeral)

lemma parse_psut_tuple:
  "parse_doc (psut_tuple a) = Some (JArr [JStr ''registry-psut-v1'', JStr (sanitize (ac_RelyingPartyID a)),
     JStr (sanitize (ac_ClientID a)), JStr (sanitize (ac_IdentifierType a)), JStr (sanitize (ac_Identifier a))])"
  unfolding psut_tuple_def
  by (subst parse_doc_marshal) (simp_all add: max_nesting_def sanitize_ascii)

lemma psut_tuple_inj:
  assumes "psut_tuple a = psut_tuple a'" and "valid_context_text a" and "valid_context_text a'"
  shows "ac_RelyingPartyID a = ac_RelyingPartyID a' \<and> ac_ClientID a = ac_ClientID a'
    \<and> ac_IdentifierType a = ac_IdentifierType a' \<and> ac_Identifier a = ac_Identifier a'"
  using parse_psut_tuple [of a] parse_psut_tuple [of a'] assms
  by (simp add: valid_context_text_def sanitize_valid)

lemma psut_eq_iff:
  "psut P a = psut P a' \<longleftrightarrow> hmac_sha256 (secret P) (psut_tuple a) = hmac_sha256 (secret P) (psut_tuple a')"
  by (auto simp: psut_def dest: raw_url_base64_inj)

lemma psut_tuple_eq_iff:
  assumes "valid_context_text a" and "valid_context_text a'"
  shows "psut_tuple a = psut_tuple a' \<longleftrightarrow> ac_RelyingPartyID a = ac_RelyingPartyID a' \<and> ac_ClientID a = ac_ClientID a'
      \<and> ac_IdentifierType a = ac_IdentifierType a' \<and> ac_Identifier a = ac_Identifier a'"
  using psut_tuple_inj [OF _ assms] by (auto simp: psut_tuple_def)

lemma psut_cong:
  assumes "ac_RelyingPartyID a = ac_RelyingPartyID a'" and "ac_ClientID a = ac_ClientID a'"
    and "ac_IdentifierType a = ac_IdentifierType a'" and "ac_Identifier a = ac_Identifier a'"
  shows "psut P a = psut P a'"
  using assms by (simp add: psut_def psut_tuple_def)

section \<open>Authentication\<close>

lemma auth_finish_cases:
  assumes "auth_finish E P r s = (q, s')"
  obtains (failed) e where "q = Inl e"
      "lookup E P (cr_Identifier r) (AccountCheckFields (BREG (config P))) s = (Inl e, s')"
  | (mismatch) data where "q = Inl ErrUnavailable"
      "lookup E P (cr_Identifier r) (AccountCheckFields (BREG (config P))) s = (Inr data, s')"
      "\<not> account_ok (config P) (cr_Identifier r) data"
  | (ok) data s1 where
      "lookup E P (cr_Identifier r) (AccountCheckFields (BREG (config P))) s = (Inr data, s1)"
      "account_ok (config P) (cr_Identifier r) data" "s' = s1\<lparr>tick := Suc (tick s1)\<rparr>"
      "q = Inr \<lparr>ar_Subject = psut P (issued_context r (env_now E (tick s1))),
         ar_Context = GoMap (context_map (clean_context (issued_context r (env_now E (tick s1)))))\<rparr>"
proof -
  obtain z s1 where L: "lookup E P (cr_Identifier r) (AccountCheckFields (BREG (config P))) s = (z, s1)"
    by (cases "lookup E P (cr_Identifier r) (AccountCheckFields (BREG (config P))) s")
  show thesis
  proof (cases z)
    case (Inl e)
    then show thesis using assms L failed [of e] by (auto simp: auth_finish_def)
  next
    case (Inr data)
    show thesis
    proof (cases "account_ok (config P) (cr_Identifier r) data")
      case False
      then have "q = Inl ErrUnavailable" "s' = s1"
        using assms L Inr by (simp_all add: auth_finish_def)
      with mismatch False L Inr show thesis by blast
    next
      case True
      then have "s' = s1\<lparr>tick := Suc (tick s1)\<rparr>"
        "q = Inr \<lparr>ar_Subject = psut P (issued_context r (env_now E (tick s1))),
         ar_Context = GoMap (context_map (clean_context (issued_context r (env_now E (tick s1)))))\<rparr>"
        using assms L Inr by (auto simp: auth_finish_def now_def Let_def unmarshal_context)
      with ok True L Inr show thesis by blast
    qed
  qed
qed

text \<open>
  \<open>Authenticate\<close> goes one of three ways: it refuses before asking the verifier, it refuses on
  the verifier's answer, or the challenge was accepted by a verifier whose context is live.
  Only in the last case is anything sent.
\<close>

lemma Authenticate_cases:
  assumes "Authenticate E P cv r v s = (q, v', s')"
  obtains (refused) "\<not> valid_request P r \<or> env_ctx E (tick s) \<noteq> None" "v' = v" "sent s' = sent s"
      "token s' = token s" "tokenDeadline s' = tokenDeadline s"
      "q = Inl (if valid_request P r then ErrUnavailable else ErrInvalidRequest)" "tick s \<le> tick s'"
  | (rejected) e n where "valid_request P r" "Verify cv (call_ctx E) r v (Suc (tick s)) = (e, v', n)"
      "e \<noteq> None \<or> call_ctx E n \<noteq> None" "sent s' = sent s" "token s' = token s"
      "tokenDeadline s' = tokenDeadline s" "tick s' = Suc n"
      "q = Inl (if call_ctx E n \<noteq> None \<or> is_ctx_error e then ErrUnavailable else ErrChallengeFailed)"
  | (accepted) n where "valid_request P r" "env_ctx E (tick s) = None"
      "Verify cv (call_ctx E) r v (Suc (tick s)) = (None, v', n)" "call_ctx E n = None"
      "auth_finish E P r (s\<lparr>tick := Suc n\<rparr>) = (q, s')"
proof (cases "valid_request P r \<and> env_ctx E (tick s) = None")
  case False
  then show thesis using assms refused
    by (auto simp: Authenticate_def ctx_done_def split: if_splits)
next
  case True
  obtain e w n where V: "Verify cv (call_ctx E) r v (Suc (tick s)) = (e, w, n)"
    by (cases "Verify cv (call_ctx E) r v (Suc (tick s))")
  obtain q2 s3 where F: "auth_finish E P r (s\<lparr>tick := Suc n\<rparr>) = (q2, s3)"
    by (cases "auth_finish E P r (s\<lparr>tick := Suc n\<rparr>)")
  have A: "(q, v', s') = (if call_ctx E n \<noteq> None \<or> is_ctx_error e then (Inl ErrUnavailable, w, s\<lparr>tick := Suc n\<rparr>)
      else if e \<noteq> None then (Inl ErrChallengeFailed, w, s\<lparr>tick := Suc n\<rparr>) else (q2, w, s3))"
    using assms True V F by (auto simp: Authenticate_def ctx_done_def Let_def split: if_splits)
  show thesis
  proof (cases "e = None \<and> call_ctx E n = None")
    case acc: True
    then have "\<not> is_ctx_error e" by (simp add: is_ctx_error_def)
    with A acc True V F accepted show thesis by simp
  next
    case rej: False
    with A True V rejected show thesis by (auto split: if_splits)
  qed
qed

text \<open>What success means, stated with the pieces that gave it.\<close>

lemma Authenticate_ok:
  assumes "Authenticate E P cv r v s = (Inr res, v', s')"
  shows "valid_request P r" and "env_ctx E (tick s) = None"
    and "\<exists>n data s1. Verify cv (call_ctx E) r v (Suc (tick s)) = (None, v', n) \<and> call_ctx E n = None
      \<and> lookup E P (cr_Identifier r) (AccountCheckFields (BREG (config P))) (s\<lparr>tick := Suc n\<rparr>) = (Inr data, s1)
      \<and> account_ok (config P) (cr_Identifier r) data \<and> s' = s1\<lparr>tick := Suc (tick s1)\<rparr>
      \<and> res = \<lparr>ar_Subject = psut P (issued_context r (env_now E (tick s1))),
         ar_Context = GoMap (context_map (clean_context (issued_context r (env_now E (tick s1)))))\<rparr>"
proof -
  have "valid_request P r \<and> env_ctx E (tick s) = None \<and> (\<exists>n data s1.
      Verify cv (call_ctx E) r v (Suc (tick s)) = (None, v', n) \<and> call_ctx E n = None
      \<and> lookup E P (cr_Identifier r) (AccountCheckFields (BREG (config P))) (s\<lparr>tick := Suc n\<rparr>) = (Inr data, s1)
      \<and> account_ok (config P) (cr_Identifier r) data \<and> s' = s1\<lparr>tick := Suc (tick s1)\<rparr>
      \<and> res = \<lparr>ar_Subject = psut P (issued_context r (env_now E (tick s1))),
         ar_Context = GoMap (context_map (clean_context (issued_context r (env_now E (tick s1)))))\<rparr>)"
    using assms
  proof (cases rule: Authenticate_cases)
    case (accepted n)
    from accepted(5) show ?thesis
    proof (cases rule: auth_finish_cases)
      case (ok data s1)
      show ?thesis
        using accepted ok by (intro conjI exI [of _ n] exI [of _ data] exI [of _ s1]) simp_all
    qed simp_all
  qed simp_all
  then show "valid_request P r" "env_ctx E (tick s) = None"
    "\<exists>n data s1. Verify cv (call_ctx E) r v (Suc (tick s)) = (None, v', n) \<and> call_ctx E n = None
      \<and> lookup E P (cr_Identifier r) (AccountCheckFields (BREG (config P))) (s\<lparr>tick := Suc n\<rparr>) = (Inr data, s1)
      \<and> account_ok (config P) (cr_Identifier r) data \<and> s' = s1\<lparr>tick := Suc (tick s1)\<rparr>
      \<and> res = \<lparr>ar_Subject = psut P (issued_context r (env_now E (tick s1))),
         ar_Context = GoMap (context_map (clean_context (issued_context r (env_now E (tick s1)))))\<rparr>"
    by blast+
qed

lemma Authenticate_errors:
  assumes "Authenticate E P cv r v s = (Inl e, v', s')" and "AccountCheckFields (BREG (config P)) \<noteq> []"
  shows "e \<in> {ErrInvalidRequest, ErrChallengeFailed, ErrSubjectDenied, ErrUnavailable}"
    and "e = ErrInvalidRequest \<longleftrightarrow> \<not> valid_request P r"
proof -
  have "e \<in> {ErrInvalidRequest, ErrChallengeFailed, ErrSubjectDenied, ErrUnavailable}
      \<and> (e = ErrInvalidRequest \<longleftrightarrow> \<not> valid_request P r)"
    using assms(1)
  proof (cases rule: Authenticate_cases)
  case (accepted n)
  from accepted(5) show ?thesis
      using accepted(1) assms(2) by (cases rule: auth_finish_cases) (auto dest: lookup_errors)
  qed auto
  then show "e \<in> {ErrInvalidRequest, ErrChallengeFailed, ErrSubjectDenied, ErrUnavailable}"
    "e = ErrInvalidRequest \<longleftrightarrow> \<not> valid_request P r" by blast+
qed

text \<open>
  Against any verifier that keeps the contract: success means the verifier found the
  challenge good, at a time the request was not cancelled, and the cache stays in order.
\<close>

context challenge_verifier
begin

lemma Authenticate_good:
  assumes "Authenticate E P \<lparr>Verify = verify, VerifierSendOTP = send\<rparr> r v s = (Inr res, v', s')"
  shows "good r v (Suc (tick s)) \<and> call_ctx E (Suc (tick s)) = None"
proof -
  obtain n where "verify (call_ctx E) r v (Suc (tick s)) = (None, v', n)"
    using Authenticate_ok(3) [OF assms] by auto
  from accepted [OF this] show ?thesis by simp
qed

lemma Authenticate_frame:
  assumes "Authenticate E P \<lparr>Verify = verify, VerifierSendOTP = send\<rparr> r v s = (q, v', s')"
    and ok: "cache_ok E P s" and mono: "mono (env_now E)"
    and cap: "1 \<le> TokenCacheMaxSeconds (TokenClient (config P))"
  shows "cache_ok E P s'" and "tick s \<le> tick s'"
proof -
  have "cache_ok E P s' \<and> tick s \<le> tick s'"
    using assms(1)
  proof (cases rule: Authenticate_cases)
    case refused
    then show ?thesis using cache_ok_later [OF ok mono] by simp
  next
    case (rejected e n)
    then have "Suc (tick s) \<le> n" using verify_time by simp
    then show ?thesis using rejected cache_ok_later [OF ok mono] by simp
  next
    case (accepted n)
    let ?s = "s\<lparr>tick := Suc n\<rparr>"
    have t: "Suc (tick s) \<le> n" using accepted(3) verify_time by simp
    then have c: "cache_ok E P ?s" using cache_ok_later [OF ok mono, of ?s] by simp
    from accepted(5) show ?thesis
    proof (cases rule: auth_finish_cases)
      case (failed e)
      then show ?thesis using lookup_frame(1,2) [OF failed(2) c mono cap] t by simp
    next
      case (mismatch data)
      then show ?thesis using lookup_frame(1,2) [OF mismatch(2) c mono cap] t by simp
    next
      case (ok data s1)
      have "cache_ok E P s'"
        using cache_ok_later [OF lookup_frame(1) [OF ok(1) c mono cap] mono] ok(3) by simp
      then show ?thesis using lookup_frame(2) [OF ok(1) c mono cap] t ok(3) by simp
    qed
  qed
  then show "cache_ok E P s'" "tick s \<le> tick s'" by blast+
qed

end

section \<open>From authentication to the subject\<close>

lemma issued_context_expiry: "ac_ExpiresAt (issued_context r t) = ac_IssuedAt (issued_context r t) + 300"
  using unix_add_seconds [of t 300] by (simp add: issued_context_def contextTTL_def)

text \<open>The size \<open>restore\<close> bounds: what the session marshals to.\<close>

definition context_size :: "authContext \<Rightarrow> nat" where
  "context_size a = length (marshal (JObj (context_map a)))"

text \<open>
  The context \<open>Authenticate\<close> returns restores, under the binding it was issued for and
  within its five minutes, to the context it was made from.
\<close>

lemma restore_issued:
  fixes r t
  defines "a \<equiv> issued_context r t"
  assumes "valid_request P r" and "valid_context_text a" and "context_size a \<le> 32 * 1024"
    and "0 < unix t" and "unix t + 300 < 2 ^ 63"
  shows "restore E P (GoMap (context_map (clean_context a))) (cr_Binding r) s =
    (if unix (env_now E (tick s)) < unix t then Inl ErrContextInvalid
     else if unix t + 300 \<le> unix (env_now E (tick s)) then Inl ErrContextExpired
     else Inr a, s\<lparr>tick := Suc (tick s)\<rparr>)"
proof -
  have times: "ac_IssuedAt a = unix t" "ac_ExpiresAt a = unix t + 300" "ac_Version a = 1"
    using issued_context_expiry [of r t] by (simp_all add: a_def issued_context_def)
  have ints: "context_ints a"
    using assms(5,6) by (simp add: context_ints_def int64_def times)
  have bound: "context_bound P a (cr_Binding r)" "validBinding (cr_Binding r)"
    using assms(2) by (simp_all add: context_bound_def a_def issued_context_def valid_request_def)
  have "restore E P (GoMap (context_map a)) (cr_Binding r) s
    = (context_times a (unix (env_now E (tick s))), s\<lparr>tick := Suc (tick s)\<rparr>)"
    using assms(4) by (intro restore_context_map ints assms(3) bound) (simp add: context_size_def)
  then show ?thesis
    using assms(5) by (simp add: clean_context_valid [OF assms(3)] context_times_def times contextTTL_def second_def)
qed

section \<open>Consented attributes\<close>

lemma needed_fields_set:
  "set (needed_fields c claims acc) = set acc \<union> {src. src \<noteq> ''$psut'' \<and> src \<in> set (ProvisionedFields (BREG c))
     \<and> (\<exists>claim \<in> set claims. map_of (ClaimMap c) claim = Some src)}"
  by (induction c claims acc rule: needed_fields.induct) (auto split: option.splits)

lemma needed_fields_distinct: "distinct acc \<Longrightarrow> distinct (needed_fields c claims acc)"
  by (induction c claims acc rule: needed_fields.induct) (auto split: option.splits)

text \<open>What one approved claim is worth, given the fields asked for and their vals.\<close>

definition claim_value :: "Config \<Rightarrow> string list \<Rightarrow> goobj \<Rightarrow> string \<Rightarrow> string \<Rightarrow> json option" where
  "claim_value c names vals subject claim = (case map_of (ClaimMap c) claim of
     None \<Rightarrow> None
   | Some source \<Rightarrow> if source = ''$psut'' then Some (JStr subject)
       else if source \<in> set names then map_of vals source else None)"

lemma claim_values_Cons:
  "claim_values c names vals subject (claim # rest) =
     (case claim_value c names vals subject claim of None \<Rightarrow> [] | Some v \<Rightarrow> [(claim, v)])
     @ claim_values c names vals subject rest"
  by (simp add: claim_value_def split: option.split)

lemma claim_values_member:
  "(k, v) \<in> set (claim_values c names vals subject claims) \<longleftrightarrow>
     k \<in> set claims \<and> claim_value c names vals subject k = Some v"
proof (induction claims)
  case (Cons claim rest)
  then show ?case by (cases "claim_value c names vals subject claim") (auto simp: claim_values_Cons simp del: claim_values.simps)
qed simp

lemma claim_values_map:
  "map_of (canon_members (claim_values c names vals subject claims)) k =
     (if k \<in> set claims then claim_value c names vals subject k else None)"
proof -
  let ?vs = "claim_values c names vals subject claims"
  have "map_of (rev ?vs) k = (if k \<in> set claims then claim_value c names vals subject k else None)"
  proof (cases "map_of (rev ?vs) k")
    case None
    then have "k \<notin> fst ` set ?vs" by (simp add: map_of_eq_None_iff)
    then show ?thesis using None claim_values_member [of k _ c names vals subject claims]
      by (cases "claim_value c names vals subject k") force+
  next
    case (Some v)
    then have "(k, v) \<in> set ?vs" by (auto dest: map_of_SomeD)
    then show ?thesis using Some by (simp add: claim_values_member)
  qed
  then show ?thesis by (simp add: map_of_canon_members)
qed

lemma GetAttributes_cases:
  assumes "GetAttributes E P state b approved s = (q, s')"
  obtains (no_claims) "approved = None" "q = Inl ErrInvalidRequest" "s' = s"
  | (bad_context) claims e where "approved = Some claims" "restore E P state b s = (Inl e, s')" "q = Inl e"
  | (failed) claims a s1 e where "approved = Some claims" "restore E P state b s = (Inr a, s1)"
      "needed_fields (config P) claims [] \<noteq> []"
      "lookup E P (ac_Identifier a) (needed_fields (config P) claims []) s1 = (Inl e, s')" "q = Inl e"
  | (ok) claims a s1 vals where "approved = Some claims" "restore E P state b s = (Inr a, s1)"
      "if needed_fields (config P) claims [] = [] then vals = [] \<and> s' = s1
       else lookup E P (ac_Identifier a) (needed_fields (config P) claims []) s1 = (Inr vals, s')"
      "q = Inr (canon_members (claim_values (config P) (needed_fields (config P) claims []) vals
         (psut P a) claims))"
proof (cases approved)
  case None
  then show thesis using assms no_claims by (simp add: GetAttributes_def)
next
  case (Some claims)
  obtain z s1 where R: "restore E P state b s = (z, s1)" by (cases "restore E P state b s")
  show thesis
  proof (cases z)
    case (Inl e)
    then show thesis using assms Some R bad_context [of claims e] by (auto simp: GetAttributes_def)
  next
    case (Inr a)
    let ?names = "needed_fields (config P) claims []"
    obtain y s2 where L: "(if ?names \<noteq> [] then lookup E P (ac_Identifier a) ?names s1 else (Inr [], s1)) = (y, s2)"
      by (cases "if ?names \<noteq> [] then lookup E P (ac_Identifier a) ?names s1 else (Inr [], s1)")
    have G: "(q, s') = (case y of Inl e \<Rightarrow> (Inl e, s2)
        | Inr vals \<Rightarrow> (Inr (canon_members (claim_values (config P) ?names vals (psut P a) claims)), s2))"
      using assms Some R Inr L by (simp add: GetAttributes_def Let_def split: sum.splits)
    show thesis
    proof (cases y)
      case (Inl e)
      with L G have "?names \<noteq> []" "lookup E P (ac_Identifier a) ?names s1 = (Inl e, s')" "q = Inl e"
        by (auto split: if_splits)
      with failed Some R Inr show thesis by blast
    next
      case (Inr vals)
      with L G have "if ?names = [] then vals = [] \<and> s' = s1
           else lookup E P (ac_Identifier a) ?names s1 = (Inr vals, s')"
        "q = Inr (canon_members (claim_values (config P) ?names vals (psut P a) claims))"
        by (auto split: if_splits)
      with ok Some R \<open>z = Inr a\<close> show thesis by blast
    qed
  qed
qed

section \<open>Supported claims\<close>

lemma SupportedClaims_set:
  "set (SupportedClaims P) = {k. \<exists>v. (k, v) \<in> set (ClaimMap (config P))
     \<and> (v = ''$psut'' \<or> v \<in> set (ProvisionedFields (BREG (config P))))}"
  by (force simp: SupportedClaims_def)

lemma SupportedClaims_sorted: "sorted (SupportedClaims P)"
  by (simp add: SupportedClaims_def)

lemma claim_value_supported:
  assumes "claim_value (config P) (needed_fields (config P) claims []) vals subject k \<noteq> None"
  shows "k \<in> set (SupportedClaims P)"
  using assms
  by (auto simp: claim_value_def SupportedClaims_set needed_fields_set
      split: option.splits if_splits dest: map_of_SomeD)

section \<open>One-time passwords\<close>

lemma SendOTP_None:
  assumes "SendOTP E P cv r v s = (None, v', s')"
  shows "validSubject P (otp_Identifier r) (otp_IdentifierType r)" and "validBinding (otp_Binding r)"
    and "otp_Channels r \<noteq> [] \<and> set (otp_Channels r) \<subseteq> {''email'', ''phone''}"
    and "\<exists>n. VerifierSendOTP cv (call_ctx E) r v (tick s) = (None, v', n) \<and> call_ctx E n = None
      \<and> s' = s\<lparr>tick := Suc n\<rparr>"
  using assms
  by (auto simp: SendOTP_def list_all_iff split: if_splits prod.splits)

lemma SendOTP_Some:
  assumes "SendOTP E P cv r v s = (Some e, v', s')"
  shows "e \<in> {ErrInvalidRequest, ErrUnavailable}" and "sent s' = sent s" and "token s' = token s"
    and "e = ErrInvalidRequest \<Longrightarrow> v' = v \<and> s' = s"
  using assms
  by (auto simp: SendOTP_def split: if_splits prod.splits)

section \<open>A constructed provider\<close>

lemma New_ok:
  assumes "New cl fs appends supplied c = Inr (P, v, h)"
  shows "config P = defaults c" and "validate (config P) = Inr ()"
    and "32 \<le> length (secret P) \<and> length (secret P) \<le> 4096"
    and "key_policy cl (key P)" and "ak_kid (key P) = KeyID (TokenClient (config P))"
    and "\<not> FollowRedirects h" and "ClientTimeout h = TimeoutSeconds (HTTP (config P)) * second"
    and "choose_verifier fs (config P) supplied = Inr v"
proof -
  obtain sec roots where N: "validate (defaults c) = Inr ()"
    "choose_verifier fs (defaults c) supplied = Inr v"
    "readBounded fs (PSUTSecretFile (defaults c)) 4096 = Inr sec" "\<not> length sec < 32"
    "loadKey cl fs (PrivateKeyFile (TokenClient (defaults c))) (KeyID (TokenClient (defaults c))) = Some (key P)"
    "P = \<lparr>config = defaults c, secret = sec, key = key P\<rparr>"
    "h = \<lparr>ClientTimeout = TimeoutSeconds (HTTP (defaults c)) * second, FollowRedirects = False, RootFile = roots\<rparr>"
    using assms by (auto simp: New_def new_with_def split: sum.splits option.splits if_splits)
  have P: "config P = defaults c" "secret P = sec" using N(6) by (metis provider.select_convs)+
  show "config P = defaults c" by (rule P)
  show "validate (config P) = Inr ()" using N(1) P by simp
  show "32 \<le> length (secret P) \<and> length (secret P) \<le> 4096"
    using readBounded_ok [OF N(3)] N(4) P by simp
  show "key_policy cl (key P)" by (rule loadKey_policy [OF N(5)])
  have "validText (KeyID (TokenClient (defaults c)))"
    using validate_policy(4) [OF N(1)] by (simp add: texts_ok_def)
  then show "ak_kid (key P) = KeyID (TokenClient (config P))"
    using loadKey_kid [OF N(5)] validText_nonempty P by simp
  show "\<not> FollowRedirects h" "ClientTimeout h = TimeoutSeconds (HTTP (config P)) * second"
    using N(7) P by simp_all
  show "choose_verifier fs (config P) supplied = Inr v" using N(2) P by simp
qed

lemma choose_verifier_policy:
  assumes "choose_verifier fs c supplied = Inr v"
  shows "v = Supplied \<longleftrightarrow> supplied"
    and "v = StaticVerifier otp \<Longrightarrow> StaticOTPEnabled (Demo c) \<and> otp \<noteq> []"
    and "v = MailpitVerifier m t \<Longrightarrow> mp_Enabled (Mailpit (Demo c)) \<and> m = Mailpit (Demo c)"
  using assms
  by (auto simp: choose_verifier_def split: if_splits sum.splits)

lemma New_no_verifier:
  assumes "\<not> supplied" and "\<not> StaticOTPEnabled (Demo c)" and "\<not> mp_Enabled (Mailpit (Demo c))"
  shows "New cl fs appends supplied c \<noteq> Inr x"
  using assms
  by (auto simp: New_def new_with_def choose_verifier_def defaults_keeps split: sum.splits)

end
