(* ===== verification/BregAdapter.thy ===== *)
theory BregAdapter
  imports Provider
begin

text \<open>
  \<open>integration/overlay/internal/engine/breg\<close>: the adapter that offers the provider to
  eSignet, and the consent decorator. The host's error values, client registry and consent
  provider are outside this repository: the errors are a datatype of their names, the two
  services are the records of the methods the adapter calls. What the adapter relies on in
  the identity provider is the locale \<open>identity_provider\<close>.
\<close>

section \<open>The host's side\<close>

datatype service_error =
  InvalidRequestError | ClientNotFoundError | InternalServerError | AuthenticationFailedError
| NotImplementedError

datatype client_error = ErrClientNotFound | OtherClientError

record ClientResponse =
  ResponseClientID :: string
  RpID :: string

type_synonym clientResolver = "string \<Rightarrow> client_error + ClientResponse"

text \<open>A Go \<open>any\<close> as far as the type assertions of the adapter tell.\<close>

datatype any_value = AnyString string | AnyMap go_map | AnyOther

type_synonym metadata = "(string \<times> string list) list"

text \<open>\<open>m[k]\<close> of a map of slices: nil when absent.\<close>

definition header :: "metadata \<Rightarrow> string \<Rightarrow> string list" where
  "header m k = (case map_of m k of None \<Rightarrow> [] | Some xs \<Rightarrow> xs)"

definition string_value :: "(string \<times> any_value) list \<Rightarrow> string \<Rightarrow> string option" where
  "string_value m k = (case map_of m k of Some (AnyString x) \<Rightarrow> Some x | _ \<Rightarrow> None)"

record 'i identityProvider =
  IdentitySendOTP :: "OTPRequest \<Rightarrow> 'i \<Rightarrow> go_error option \<times> 'i"
  IdentityAuthenticate :: "ChallengeRequest \<Rightarrow> 'i \<Rightarrow> (go_error + go_map AuthenticationResult) \<times> 'i"
  IdentityGetAttributes :: "go_map \<Rightarrow> Binding \<Rightarrow> string list option \<Rightarrow> 'i \<Rightarrow> (go_error + goobj) \<times> 'i"

text \<open>\<open>'p\<close> is what the identity interface holds.\<close>

record 'p authenticator =
  identity :: 'p
  clients :: "clientResolver option"
  identifierType :: string
  channels :: "string list"

section \<open>The adapter\<close>

definition transactionKey :: string where
  "transactionKey = ''provider_ext_TransactionID''"

definition transaction_binding :: "Binding \<Rightarrow> metadata \<Rightarrow> bool \<Rightarrow> service_error + Binding" where
  "transaction_binding b m requireTransaction =
     (let transactions = header m transactionKey
      in if length transactions = 1 \<and> hd transactions \<noteq> []
         then Inr (b\<lparr>TransactionID := hd transactions\<rparr>)
         else if requireTransaction \<or> transactions \<noteq> [] then Inl InvalidRequestError
         else Inr b)"

definition binding :: "'p authenticator \<Rightarrow> metadata \<Rightarrow> bool \<Rightarrow> service_error + Binding" where
  "binding p m requireTransaction =
     (let ids = header m ''initiator_query_client_id''
      in case clients p of
           None \<Rightarrow> Inl InvalidRequestError
         | Some getClient \<Rightarrow>
             if length ids \<noteq> 1 \<or> hd ids = [] then Inl InvalidRequestError
             else (case getClient (hd ids) of
               Inl ErrClientNotFound \<Rightarrow> Inl ClientNotFoundError
             | Inl OtherClientError \<Rightarrow> Inl InternalServerError
             | Inr client \<Rightarrow>
                 if ResponseClientID client \<noteq> hd ids \<or> RpID client = [] then Inl InvalidRequestError
                 else transaction_binding \<lparr>RelyingPartyID = RpID client,
                   ClientID = ResponseClientID client, TransactionID = []\<rparr> m requireTransaction))"

definition providerError :: "go_error \<Rightarrow> service_error" where
  "providerError e = (case e of
     ProviderErr ErrUnavailable \<Rightarrow> InternalServerError
   | ProviderErr ErrInvalidRequest \<Rightarrow> InvalidRequestError
   | ProviderErr ErrChallengeFailed \<Rightarrow> AuthenticationFailedError
   | ProviderErr ErrSubjectDenied \<Rightarrow> AuthenticationFailedError
   | ProviderErr ErrContextInvalid \<Rightarrow> AuthenticationFailedError
   | ProviderErr ErrContextExpired \<Rightarrow> AuthenticationFailedError
   | _ \<Rightarrow> InternalServerError)"

text \<open>\<open>entropy\<close>: what \<open>rand.Read\<close> fills the sixteen bytes with.\<close>

definition AdapterSendOTP :: "'i identityProvider authenticator \<Rightarrow> string option \<Rightarrow> (string \<times> any_value) list
    \<Rightarrow> metadata option \<Rightarrow> 'i \<Rightarrow> (service_error + string) \<times> 'i" where
  "AdapterSendOTP p entropy identifiers meta i = (case meta of
     None \<Rightarrow> (Inl InvalidRequestError, i)
   | Some m \<Rightarrow> (case string_value identifiers ''username'' of
       None \<Rightarrow> (Inl InvalidRequestError, i)
     | Some identifier \<Rightarrow>
         if identifier = [] then (Inl InvalidRequestError, i)
         else (case binding p m False of
           Inl e \<Rightarrow> (Inl e, i)
         | Inr b \<Rightarrow>
             (case (if TransactionID b = [] then map_option hex_encode entropy
                    else Some (TransactionID b)) of
                None \<Rightarrow> (Inl InternalServerError, i)
              | Some tid \<Rightarrow>
                  (case IdentitySendOTP (identity p) \<lparr>otp_Identifier = identifier,
                      otp_IdentifierType = identifierType p, otp_Binding = b\<lparr>TransactionID := tid\<rparr>,
                      otp_Channels = channels p\<rparr> i of
                     (Some e, i') \<Rightarrow> (Inl (providerError e), i')
                   | (None, i') \<Rightarrow> (Inr tid, i'))))))"

record AuthnResult =
  EntityID :: string
  AttributeToken :: go_map

definition AdapterAuthenticate :: "'i identityProvider authenticator \<Rightarrow> (string \<times> any_value) list \<Rightarrow> (string \<times> any_value) list
    \<Rightarrow> metadata option \<Rightarrow> 'i \<Rightarrow> (service_error + AuthnResult) \<times> 'i" where
  "AdapterAuthenticate p identifiers credentials meta i = (case meta of
     None \<Rightarrow> (Inl InvalidRequestError, i)
   | Some m \<Rightarrow> (case (string_value identifiers ''username'', string_value credentials ''otp'') of
       (Some identifier, Some challenge) \<Rightarrow>
         if identifier = [] \<or> challenge = [] then (Inl InvalidRequestError, i)
         else if length credentials \<noteq> 1 then (Inl InvalidRequestError, i)
         else (case binding p m True of
           Inl e \<Rightarrow> (Inl e, i)
         | Inr b \<Rightarrow>
             (case IdentityAuthenticate (identity p) \<lparr>cr_Identifier = identifier,
                 cr_IdentifierType = identifierType p, cr_Challenge = challenge, cr_Binding = b\<rparr> i of
                (Inl e, i') \<Rightarrow> (Inl (providerError e), i')
              | (Inr res, i') \<Rightarrow>
                  if ar_Subject res = [] \<or> ar_Context res = NilMap then (Inl InternalServerError, i')
                  else (Inr \<lparr>EntityID = ar_Subject res, AttributeToken = ar_Context res\<rparr>, i')))
     | _ \<Rightarrow> (Inl InvalidRequestError, i)))"

text \<open>A requested attribute and whether it carries a constraint; the verifications asked for.\<close>

record RequestedAttributes =
  Verifications :: "string list"
  Attributes :: "(string \<times> bool) list"

definition AdapterGetAttributes :: "'i identityProvider authenticator \<Rightarrow> any_value \<Rightarrow> RequestedAttributes option
    \<Rightarrow> metadata option \<Rightarrow> 'i \<Rightarrow> (service_error + goobj) \<times> 'i" where
  "AdapterGetAttributes p tok requested meta i = (case (requested, meta) of
     (Some r, Some m) \<Rightarrow>
       if Verifications r \<noteq> [] then (Inl InvalidRequestError, i)
       else (case tok of
         AnyMap state \<Rightarrow>
           if state = NilMap then (Inl InvalidRequestError, i)
           else (case binding p m True of
             Inl e \<Rightarrow> (Inl e, i)
           | Inr b \<Rightarrow>
               if list_ex snd (Attributes r) then (Inl InvalidRequestError, i)
               else (let names = sort (map fst (Attributes r))
                     in case IdentityGetAttributes (identity p) state b (Some names) i of
                          (Inl e, i') \<Rightarrow> (Inl (providerError e), i')
                        | (Inr vals, i') \<Rightarrow>
                            (Inr (concat (map (\<lambda>name. case map_of vals name of
                               None \<Rightarrow> [] | Some v \<Rightarrow> [(name, v)]) names)), i')))
       | _ \<Rightarrow> (Inl InvalidRequestError, i))
   | _ \<Rightarrow> (Inl InvalidRequestError, i))"

text \<open>The methods of the host interface this integration does not offer.\<close>

definition GetEntityReference :: "any_value \<Rightarrow> service_error + unit" where
  "GetEntityReference tok = Inl InvalidRequestError"

definition GetSigningCertificates :: "service_error + string list" where
  "GetSigningCertificates = Inr []"

definition InitiateAuthentication :: "string \<Rightarrow> service_error + unit" where
  "InitiateAuthentication kind = Inl NotImplementedError"

definition InitiateEnrollment :: "string \<Rightarrow> service_error + unit" where
  "InitiateEnrollment kind = Inl NotImplementedError"

definition Enroll :: "(string \<times> any_value) list \<Rightarrow> (string \<times> any_value) list \<Rightarrow> service_error + unit" where
  "Enroll identifiers credentials = Inl NotImplementedError"

section \<open>The provider behind the adapter\<close>

text \<open>A provider with its verifier, its errors as the errors a caller tells apart.\<close>

definition lift_error :: "(provider_error + 'a) \<times> 'b \<Rightarrow> (go_error + 'a) \<times> 'b" where
  "lift_error q = (case q of (Inl e, s) \<Rightarrow> (Inl (ProviderErr e), s) | (Inr x, s) \<Rightarrow> (Inr x, s))"

definition core_SendOTP :: "env \<Rightarrow> provider \<Rightarrow> 'v ChallengeVerifier \<Rightarrow> OTPRequest \<Rightarrow> 'v \<times> pstate
    \<Rightarrow> go_error option \<times> ('v \<times> pstate)" where
  "core_SendOTP E P cv r i = (case SendOTP E P cv r (fst i) (snd i) of
     (e, v, s) \<Rightarrow> (map_option ProviderErr e, (v, s)))"

definition core_Authenticate :: "env \<Rightarrow> provider \<Rightarrow> 'v ChallengeVerifier \<Rightarrow> ChallengeRequest \<Rightarrow> 'v \<times> pstate
    \<Rightarrow> (go_error + go_map AuthenticationResult) \<times> ('v \<times> pstate)" where
  "core_Authenticate E P cv r i = lift_error (Authenticate E P cv r (fst i) (snd i))"

definition core_GetAttributes :: "env \<Rightarrow> provider \<Rightarrow> go_map \<Rightarrow> Binding \<Rightarrow> string list option \<Rightarrow> 'v \<times> pstate
    \<Rightarrow> (go_error + goobj) \<times> ('v \<times> pstate)" where
  "core_GetAttributes E P state b approved i =
     (case lift_error (GetAttributes E P state b approved (snd i)) of (q, s) \<Rightarrow> (q, (fst i, s)))"

definition core_identity :: "env \<Rightarrow> provider \<Rightarrow> 'v ChallengeVerifier \<Rightarrow> ('v \<times> pstate) identityProvider" where
  "core_identity E P cv = \<lparr>IdentitySendOTP = core_SendOTP E P cv,
     IdentityAuthenticate = core_Authenticate E P cv, IdentityGetAttributes = core_GetAttributes E P\<rparr>"

text \<open>
  \<open>Init\<close>: the provider from its mounted configuration, with no option, so the verifier is
  one of the two demo verifiers; the adapter's own settings come from the same provider. The
  host passes a pointer to its client service, \<open>None\<close> when it is nil, and \<open>getClient\<close> is the
  method of that pointer, which Go also dispatches on a nil one: stored in the interface field
  the pointer makes a value that is never nil. The observability provider is the host's no-op.
\<close>

datatype observability = NoopAuditor

definition Init :: "yaml_lib \<Rightarrow> crypto_lib \<Rightarrow> (string \<Rightarrow> file_data) \<Rightarrow> (string \<Rightarrow> bool) \<Rightarrow> (string \<Rightarrow> string)
    \<Rightarrow> ('svc option \<Rightarrow> clientResolver) \<Rightarrow> 'svc option
    \<Rightarrow> string + (provider \<times> verifier_choice \<times> http_client) authenticator \<times> observability" where
  "Init y cl fs appends getenv getClient service = (case LoadConfigFromEnv y fs getenv of
     Inl e \<Rightarrow> Inl e
   | Inr cfg \<Rightarrow> (case New cl fs appends False cfg of
       Inl e \<Rightarrow> Inl e
     | Inr (P, v, h) \<Rightarrow> Inr (\<lparr>identity = (P, v, h), clients = Some (getClient service),
         identifierType = SubjectIDType cfg, channels = SupportedOTPChannels P\<rparr>, NoopAuditor)))"

text \<open>
  What \<open>Init\<close> wires together. The guard of \<open>binding\<close> against missing clients never fires in an
  adapter it made, whatever service the host passed.
\<close>

lemma Init_ok:
  assumes "Init y cl fs appends getenv getClient service = Inr (a, obs)"
  obtains P v h where "identity a = (P, v, h)"
    "LoadConfig y fs (getenv ''REGISTRY_ESIGNET_CONFIG_FILE'') = Inr (config P)"
    "New cl fs appends False (config P) = Inr (P, v, h)"
    "identifierType a = SubjectIDType (config P)" "channels a = SupportedOTPChannels P"
    "clients a = Some (getClient service)"
proof -
  obtain cfg P v h where I: "LoadConfig y fs (getenv ''REGISTRY_ESIGNET_CONFIG_FILE'') = Inr cfg"
    "New cl fs appends False cfg = Inr (P, v, h)"
    "a = \<lparr>identity = (P, v, h), clients = Some (getClient service),
       identifierType = SubjectIDType cfg, channels = SupportedOTPChannels P\<rparr>"
    using assms by (auto simp: Init_def LoadConfigFromEnv_def split: sum.splits)
  have "config P = cfg" using New_ok(1) [OF I(2)] LoadConfig_ok(2) [OF I(1)] by simp
  then show thesis using I by (intro that [of P v h]) simp_all
qed

lemma binding_unresolved:
  assumes "clients a = Some getClient" and "header m ''initiator_query_client_id'' = [cid]" and "cid \<noteq> []"
    and "getClient cid = Inl e"
  shows "binding a m need = Inl (case e of ErrClientNotFound \<Rightarrow> ClientNotFoundError | OtherClientError \<Rightarrow> InternalServerError)"
  using assms by (cases e) (simp_all add: binding_def Let_def)

section \<open>Consent\<close>

text \<open>
  The host's errors carry a code; the decorator changes only that. The arguments it passes
  on unread are one value, the reprompt flag it forces is apart.
\<close>

record 'x ServiceError =
  Code :: string
  Details :: 'x

record ('d, 'a, 'r, 'q, 'x) ConsentProvider =
  RecordConsent :: "'d \<Rightarrow> 'r option \<times> 'x ServiceError option"
  ResolveConsent :: "'a \<Rightarrow> bool \<Rightarrow> 'q option \<times> 'x ServiceError option"

definition fresh_RecordConsent :: "('d, 'a, 'r, 'q, 'x) ConsentProvider \<Rightarrow> 'd
    \<Rightarrow> 'r option \<times> 'x ServiceError option" where
  "fresh_RecordConsent c decisions = (case RecordConsent c decisions of (rec, e) \<Rightarrow>
     (case e of
        Some err \<Rightarrow> if Code err = ''essential_consent_denied''
          then (rec, Some (err\<lparr>Code := ''AUTH-CES-1006''\<rparr>)) else (rec, Some err)
      | None \<Rightarrow> (rec, None)))"

definition fresh_ResolveConsent :: "('d, 'a, 'r, 'q, 'x) ConsentProvider \<Rightarrow> 'a \<Rightarrow> bool
    \<Rightarrow> 'q option \<times> 'x ServiceError option" where
  "fresh_ResolveConsent c args ignored = ResolveConsent c args True"

definition freshConsentProvider :: "('d, 'a, 'r, 'q, 'x) ConsentProvider
    \<Rightarrow> ('d, 'a, 'r, 'q, 'x) ConsentProvider" where
  "freshConsentProvider c = \<lparr>RecordConsent = fresh_RecordConsent c, ResolveConsent = fresh_ResolveConsent c\<rparr>"

definition WithFreshConsent :: "string \<Rightarrow> ('d, 'a, 'r, 'q, 'x) ConsentProvider
    \<Rightarrow> ('d, 'a, 'r, 'q, 'x) ConsentProvider" where
  "WithFreshConsent name c = (if name \<noteq> ''breg'' then c else freshConsentProvider c)"

section \<open>Bindings\<close>

text \<open>A binding names the one client the request carries, as the registry knows it.\<close>

lemma binding_Inr:
  assumes "binding p m need = Inr b"
  shows "\<exists>cid rp getClient. clients p = Some getClient \<and> header m ''initiator_query_client_id'' = [cid]
      \<and> getClient cid = Inr \<lparr>ResponseClientID = cid, RpID = rp\<rparr> \<and> cid \<noteq> [] \<and> rp \<noteq> []
      \<and> ClientID b = cid \<and> RelyingPartyID b = rp
      \<and> (header m transactionKey = [TransactionID b] \<and> TransactionID b \<noteq> []
         \<or> header m transactionKey = [] \<and> TransactionID b = [] \<and> \<not> need)"
proof -
  let ?ids = "header m ''initiator_query_client_id''"
  obtain getClient where G: "clients p = Some getClient"
    using assms by (auto simp: binding_def Let_def split: option.splits)
  have I: "length ?ids = 1" "hd ?ids \<noteq> []"
    using assms G by (auto simp: binding_def Let_def split: if_splits)
  then obtain cid where cid: "?ids = [cid]" "cid \<noteq> []" by (cases ?ids) auto
  obtain cl where C: "getClient cid = Inr cl" "ResponseClientID cl = cid" "RpID cl \<noteq> []"
    "transaction_binding \<lparr>RelyingPartyID = RpID cl, ClientID = cid, TransactionID = []\<rparr> m need = Inr b"
    using assms G cid by (auto simp: binding_def Let_def split: sum.splits client_error.splits if_splits)
  have cl: "cl = \<lparr>ResponseClientID = cid, RpID = RpID cl\<rparr>" using C(2) by (cases cl) simp
  have T: "ClientID b = cid \<and> RelyingPartyID b = RpID cl
      \<and> (header m transactionKey = [TransactionID b] \<and> TransactionID b \<noteq> []
         \<or> header m transactionKey = [] \<and> TransactionID b = [] \<and> \<not> need)"
    using C(4) by (cases "header m transactionKey")
      (auto simp: transaction_binding_def Let_def split: if_splits)
  show ?thesis using G cid C(1,3) cl T by (intro exI [of _ cid] exI [of _ "RpID cl"] exI [of _ getClient]) simp
qed

lemma binding_Inl: "binding p m need = Inl e \<Longrightarrow> e \<in> {InvalidRequestError, ClientNotFoundError, InternalServerError}"
  by (auto simp: binding_def transaction_binding_def Let_def
      split: option.splits sum.splits client_error.splits if_splits)

lemma providerError_auth:
  "providerError (ProviderErr e) = AuthenticationFailedError \<longleftrightarrow>
     e \<in> {ErrChallengeFailed, ErrSubjectDenied, ErrContextInvalid, ErrContextExpired}"
  by (simp add: providerError_def split: provider_error.splits)

text \<open>The members of a map under the given names.\<close>

lemma map_of_selected:
  "map_of (concat (map (\<lambda>name. case map_of out name of None \<Rightarrow> [] | Some v \<Rightarrow> [(name, v)]) names)) k
    = (if k \<in> set names then map_of out k else None)"
  by (induction names) (auto simp: map_add_def split: option.splits)

section \<open>The contract of the identity provider\<close>

text \<open>
  Every error is one of the provider's; a result has a subject and a context; attributes are
  given only for names that were asked for, and only when there is a list of names.
\<close>

locale identity_provider =
  fixes send :: "OTPRequest \<Rightarrow> 'i \<Rightarrow> go_error option \<times> 'i"
    and auth :: "ChallengeRequest \<Rightarrow> 'i \<Rightarrow> (go_error + go_map AuthenticationResult) \<times> 'i"
    and attrs :: "go_map \<Rightarrow> Binding \<Rightarrow> string list option \<Rightarrow> 'i \<Rightarrow> (go_error + goobj) \<times> 'i"
  assumes auth_result: "auth r i = (Inr res, i') \<Longrightarrow> ar_Subject res \<noteq> [] \<and> ar_Context res \<noteq> NilMap"
    and auth_error: "auth r i = (Inl e, i') \<Longrightarrow> e \<in> range ProviderErr"
    and attrs_names: "attrs st b (Some names) i = (Inr vals, i') \<Longrightarrow> fst ` set vals \<subseteq> set names"
    and attrs_error: "attrs st b approved i = (Inl e, i') \<Longrightarrow> e \<in> range ProviderErr"
begin

abbreviation "the_provider \<equiv> \<lparr>IdentitySendOTP = send, IdentityAuthenticate = auth, IdentityGetAttributes = attrs\<rparr>"

text \<open>The adapter reports success exactly when the provider does, for the bound request.\<close>

lemma adapter_auth:
  assumes "identity p = the_provider"
    and "AdapterAuthenticate p identifiers credentials meta i = (Inr res, i')"
  shows "\<exists>m identifier challenge b out. meta = Some m \<and> string_value identifiers ''username'' = Some identifier
      \<and> string_value credentials ''otp'' = Some challenge \<and> length credentials = 1
      \<and> binding p m True = Inr b
      \<and> auth \<lparr>cr_Identifier = identifier, cr_IdentifierType = identifierType p, cr_Challenge = challenge,
               cr_Binding = b\<rparr> i = (Inr out, i')
      \<and> res = \<lparr>EntityID = ar_Subject out, AttributeToken = ar_Context out\<rparr> \<and> EntityID res \<noteq> []"
  using assms
  by (auto simp: AdapterAuthenticate_def split: option.splits if_splits sum.splits prod.splits)

text \<open>No internal error is reported for a result the provider did give.\<close>

lemma adapter_auth_error:
  assumes "identity p = the_provider" and "binding p m True = Inr b"
    and "string_value identifiers ''username'' = Some identifier" and "identifier \<noteq> []"
    and "string_value credentials ''otp'' = Some challenge" and "challenge \<noteq> []"
    and "length credentials = 1"
  shows "(case auth \<lparr>cr_Identifier = identifier, cr_IdentifierType = identifierType p,
            cr_Challenge = challenge, cr_Binding = b\<rparr> i of
       (Inl e, i') \<Rightarrow> AdapterAuthenticate p identifiers credentials (Some m) i = (Inl (providerError e), i')
     | (Inr out, i') \<Rightarrow> AdapterAuthenticate p identifiers credentials (Some m) i
         = (Inr \<lparr>EntityID = ar_Subject out, AttributeToken = ar_Context out\<rparr>, i'))"
  using assms
  by (auto simp: AdapterAuthenticate_def dest!: auth_result split: sum.splits prod.splits)

lemma adapter_attrs:
  assumes "identity p = the_provider"
    and "AdapterGetAttributes p tok requested meta i = (Inr vals, i')"
  shows "\<exists>r m state b out. requested = Some r \<and> meta = Some m \<and> Verifications r = []
      \<and> tok = AnyMap state \<and> state \<noteq> NilMap \<and> \<not> list_ex snd (Attributes r)
      \<and> binding p m True = Inr b
      \<and> attrs state b (Some (sort (map fst (Attributes r)))) i = (Inr out, i')
      \<and> map_of vals = map_of out"
proof -
  obtain r m state b out where R: "requested = Some r" "meta = Some m" "Verifications r = []"
    "tok = AnyMap state" "state \<noteq> NilMap" "binding p m True = Inr b" "\<not> list_ex snd (Attributes r)"
    "attrs state b (Some (sort (map fst (Attributes r)))) i = (Inr out, i')"
    and vals: "vals = concat (map (\<lambda>name. case map_of out name of
           None \<Rightarrow> [] | Some v \<Rightarrow> [(name, v)]) (sort (map fst (Attributes r))))"
    using assms
    by (auto simp: AdapterGetAttributes_def Let_def
        split: option.splits if_splits sum.splits prod.splits any_value.splits)
  let ?names = "sort (map fst (Attributes r))"
  have sub: "fst ` set out \<subseteq> set ?names" by (rule attrs_names [OF R(8)])
  have "map_of vals k = (if k \<in> set ?names then map_of out k else None)" for k
    unfolding vals by (rule map_of_selected)
  moreover have "map_of out k = None" if "k \<notin> set ?names" for k
    using sub that by (auto simp: map_of_eq_None_iff)
  ultimately have "map_of vals = map_of out" by (intro ext) simp
  with R show ?thesis by blast
qed

end

section \<open>The provider keeps the contract\<close>

lemma lift_error_Inl: "lift_error q = (Inl e, s) \<Longrightarrow> e \<in> range ProviderErr"
  by (cases q, rename_tac r t, case_tac r) (auto simp: lift_error_def)

lemma lift_error_Inr: "lift_error q = (Inr x, s) \<Longrightarrow> q = (Inr x, s)"
  by (cases q, rename_tac r t, case_tac r) (auto simp: lift_error_def)

interpretation core: identity_provider "core_SendOTP E P cv" "core_Authenticate E P cv" "core_GetAttributes E P"
  for E P cv
proof unfold_locales
  fix r i res i' e
  show "ar_Subject res \<noteq> [] \<and> ar_Context res \<noteq> NilMap" if "core_Authenticate E P cv r i = (Inr res, i')"
  proof -
    have "Authenticate E P cv r (fst i) (snd i) = (Inr res, i')"
      using that unfolding core_Authenticate_def by (rule lift_error_Inr)
    then have A: "Authenticate E P cv r (fst i) (snd i) = (Inr res, fst i', snd i')" by simp
    obtain a ms where "res = \<lparr>ar_Subject = psut P a, ar_Context = GoMap ms\<rparr>"
      using Authenticate_ok(3) [OF A] by blast
    then show ?thesis by simp
  qed
  show "e \<in> range ProviderErr" if "core_Authenticate E P cv r i = (Inl e, i')"
    using that unfolding core_Authenticate_def by (rule lift_error_Inl)
next
  fix st b names i vals i'
  assume "core_GetAttributes E P st b (Some names) i = (Inr vals, i')"
  then obtain s' where G: "GetAttributes E P st b (Some names) (snd i) = (Inr vals, s')"
    by (auto simp: core_GetAttributes_def split: prod.splits dest: lift_error_Inr)
  show "fst ` set vals \<subseteq> set names"
    using G
  proof (cases rule: GetAttributes_cases)
    case (ok claims a s1 vs)
    have "k \<in> set names" if "k \<in> fst ` set vals" for k
    proof -
      have "map_of vals k \<noteq> None" using that by (simp add: map_of_eq_None_iff)
      with ok show ?thesis by (auto simp: claim_values_map split: if_splits)
    qed
    then show ?thesis by blast
  qed simp_all
next
  fix st b approved i e i'
  assume "core_GetAttributes E P st b approved i = (Inl e, i')"
  then show "e \<in> range ProviderErr"
    by (auto simp: core_GetAttributes_def split: prod.splits dest: lift_error_Inl)
qed

section \<open>Consent\<close>

lemma fresh_consent_reprompts:
  "ResolveConsent (WithFreshConsent ''breg'' c) args flag = ResolveConsent c args True"
  by (simp add: WithFreshConsent_def freshConsentProvider_def fresh_ResolveConsent_def)

end
