(* ===== verification/Login.thy ===== *)
theory Login
  imports BregAdapter
begin

text \<open>
  The parts put together: the adapter over the provider over the Mailpit verifier. A login is
  one \<open>SendOTP\<close> of the adapter and a later \<open>Authenticate\<close> for the same user name, client and
  transaction.
\<close>

section \<open>What reaches the registry\<close>

text \<open>A request is sent only after the verifier accepted.\<close>

lemma Authenticate_sends:
  assumes "Authenticate E P cv r v s = (q, v', s')" and "sent s' \<noteq> sent s \<or> (\<exists>res. q = Inr res)"
  shows "\<exists>n. Verify cv (call_ctx E) r v (Suc (tick s)) = (None, v', n)"
  using assms by (cases rule: Authenticate_cases) auto

lemma Authenticate_accepted:
  assumes "valid_request P r" and "\<And>n. call_ctx E n = None"
    and "Verify cv (call_ctx E) r v (Suc (tick s)) = (None, v', n)"
  shows "Authenticate E P cv r v s =
    (case auth_finish E P r (s\<lparr>tick := Suc n\<rparr>) of (q, s') \<Rightarrow> (q, v', s'))"
proof -
  have "env_ctx E (tick s) = None" using assms(2) [of "tick s"] by (simp add: call_ctx_None)
  then show ?thesis using assms by (simp add: Authenticate_def ctx_done_def Let_def is_ctx_error_def)
qed

lemma Authenticate_refuses:
  assumes "valid_request P r" and "\<And>n. call_ctx E n = None"
    and "Verify cv (call_ctx E) r v (Suc (tick s)) = (Some (ProviderErr e), v', n)"
  shows "Authenticate E P cv r v s = (Inl ErrChallengeFailed, v', s\<lparr>tick := Suc n\<rparr>)"
proof -
  have "env_ctx E (tick s) = None" using assms(2) [of "tick s"] by (simp add: call_ctx_None)
  then show ?thesis using assms by (simp add: Authenticate_def ctx_done_def Let_def is_ctx_error_def)
qed

section \<open>The adapter's request\<close>

definition bound_request :: "'p authenticator \<Rightarrow> string \<Rightarrow> string \<Rightarrow> Binding \<Rightarrow> ChallengeRequest" where
  "bound_request p uid challenge b = \<lparr>cr_Identifier = uid, cr_IdentifierType = identifierType p,
     cr_Challenge = challenge, cr_Binding = b\<rparr>"

lemma adapter_auth_core:
  assumes "identity p = core_identity E P cv" and "binding p m True = Inr b"
    and "string_value identifiers ''username'' = Some uid" and "uid \<noteq> []"
    and "string_value credentials ''otp'' = Some challenge" and "challenge \<noteq> []"
    and "length credentials = 1"
  shows "AdapterAuthenticate p identifiers credentials (Some m) (v, s) =
    (case Authenticate E P cv (bound_request p uid challenge b) v s of
       (Inl e, i') \<Rightarrow> (Inl (providerError (ProviderErr e)), i')
     | (Inr out, i') \<Rightarrow> (Inr \<lparr>EntityID = ar_Subject out, AttributeToken = ar_Context out\<rparr>, i'))"
proof -
  let ?r = "bound_request p uid challenge b"
  obtain q i' where A: "Authenticate E P cv ?r v s = (q, i')" by (cases "Authenticate E P cv ?r v s")
  have c: "core_Authenticate E P cv ?r (v, s) = (map_sum ProviderErr id q, i')"
    by (cases q) (simp_all add: core_Authenticate_def lift_error_def A)
  have "case core_Authenticate E P cv ?r (v, s) of
       (Inl e, i') \<Rightarrow> AdapterAuthenticate p identifiers credentials (Some m) (v, s) = (Inl (providerError e), i')
     | (Inr out, i') \<Rightarrow> AdapterAuthenticate p identifiers credentials (Some m) (v, s)
         = (Inr \<lparr>EntityID = ar_Subject out, AttributeToken = ar_Context out\<rparr>, i')"
    using assms unfolding core_identity_def bound_request_def by (intro core.adapter_auth_error) simp_all
  then show ?thesis by (cases q) (simp_all add: c A)
qed

text \<open>Whatever the adapter sends or returns comes from the provider, for one bound request.\<close>

lemma adapter_auth_active:
  assumes "identity p = core_identity E P cv"
    and "AdapterAuthenticate p identifiers credentials (Some m) (v, s) = (q, (v', s'))"
    and "sent s' \<noteq> sent s \<or> (\<exists>res. q = Inr res)"
  shows "\<exists>uid challenge b n. string_value identifiers ''username'' = Some uid
    \<and> string_value credentials ''otp'' = Some challenge \<and> binding p m True = Inr b
    \<and> Verify cv (call_ctx E) (bound_request p uid challenge b) v (Suc (tick s)) = (None, v', n)"
proof -
  obtain uid challenge b where R: "string_value identifiers ''username'' = Some uid" "uid \<noteq> []"
    "string_value credentials ''otp'' = Some challenge" "challenge \<noteq> []" "length credentials = 1"
    "binding p m True = Inr b"
    using assms(2,3) by (auto simp: AdapterAuthenticate_def split: option.splits if_splits sum.splits)
  let ?r = "bound_request p uid challenge b"
  obtain w v1 s1 where A: "Authenticate E P cv ?r v s = (w, v1, s1)" by (cases "Authenticate E P cv ?r v s")
  have "v1 = v'" "s1 = s'" "(\<exists>res. q = Inr res) \<longleftrightarrow> (\<exists>res. w = Inr res)"
    using adapter_auth_core [OF assms(1) R(6) R(1-5), of v s] assms(2) A by (auto split: sum.splits)
  with Authenticate_sends [OF A] assms(3) R show ?thesis by blast
qed

text \<open>A code the adapter sent is for the binding it answers with.\<close>

lemma adapter_sent:
  assumes "identity p = core_identity E P cv"
    and "AdapterSendOTP p entropy identifiers (Some m) (v, s) = (Inr tid, (v', s'))"
  shows "\<exists>uid b n. string_value identifiers ''username'' = Some uid \<and> uid \<noteq> []
    \<and> binding p m False = Inr b \<and> tid \<noteq> []
    \<and> validSubject P uid (identifierType p) \<and> validBinding (b\<lparr>TransactionID := tid\<rparr>)
    \<and> VerifierSendOTP cv (call_ctx E) \<lparr>otp_Identifier = uid, otp_IdentifierType = identifierType p,
         otp_Binding = b\<lparr>TransactionID := tid\<rparr>, otp_Channels = channels p\<rparr> v (tick s) = (None, v', n)
    \<and> s' = s\<lparr>tick := Suc n\<rparr>"
proof -
  obtain uid b where R: "string_value identifiers ''username'' = Some uid" "uid \<noteq> []"
    "binding p m False = Inr b"
    and C: "core_SendOTP E P cv \<lparr>otp_Identifier = uid, otp_IdentifierType = identifierType p,
         otp_Binding = b\<lparr>TransactionID := tid\<rparr>, otp_Channels = channels p\<rparr> (v, s) = (None, (v', s'))"
    using assms
    by (auto simp: AdapterSendOTP_def core_identity_def split: option.splits if_splits sum.splits prod.splits)
  have S: "SendOTP E P cv \<lparr>otp_Identifier = uid, otp_IdentifierType = identifierType p,
         otp_Binding = b\<lparr>TransactionID := tid\<rparr>, otp_Channels = channels p\<rparr> v s = (None, v', s')"
    using C by (auto simp: core_SendOTP_def split: prod.splits)
  note N = SendOTP_None [OF S]
  have "tid \<noteq> []" using N(2) validText_nonempty by (auto simp: validBinding_def)
  with R N show ?thesis by auto
qed

text \<open>The same client and the transaction that was answered give the same binding again.\<close>

lemma binding_again:
  assumes "binding p m False = Inr b" and "tid \<noteq> []"
    and "header m2 ''initiator_query_client_id'' = header m ''initiator_query_client_id''"
    and "header m2 transactionKey = [tid]"
  shows "binding p m2 True = Inr (b\<lparr>TransactionID := tid\<rparr>)"
  using assms
  by (auto simp: binding_def transaction_binding_def Let_def split: option.splits sum.splits client_error.splits if_splits)

section \<open>The code that was mailed\<close>

lemma mailpit_Verify_refuses:
  assumes "fst (mailpit_Verify E x r m n) \<noteq> None" and "x n = None"
  shows "fst (mailpit_Verify E x r m n) = Some (ProviderErr ErrChallengeFailed)"
  using assms by (auto simp: mailpit_Verify_def split: prod.splits if_splits)

text \<open>
  A login: what was mailed, and which codes the verifier will accept for the request the
  adapter makes for the same user, client and transaction.
\<close>

lemma adapter_mail:
  assumes "identity p = core_identity E P (mailpit_verifier E c)"
    and "AdapterSendOTP p entropy identifiers (Some m) (v, s) = (Inr tid, (v', s'))"
    and "header m2 ''initiator_query_client_id'' = header m ''initiator_query_client_id''"
    and "header m2 transactionKey = [tid]"
  obtains uid b code sa i where "string_value identifiers ''username'' = Some uid" "uid \<noteq> []"
    "binding p m2 True = Inr b" "TransactionID b = tid" "validSubject P uid (identifierType p)" "validBinding b"
    "outbox v' = outbox v @ smtp_script c code" "length code = 6" "list_all is_digit code"
    "tick s < i" "i < tick s'"
    "\<And>y j given. fst (mailpit_Verify E y (bound_request p uid given b) v' j) = None \<longleftrightarrow> y j = None
       \<and> env_now E (Suc j) < env_now E i + mailpitChallengeTTL
       \<and> sha256 (sa @ code) = sha256 (sa @ given)"
proof -
  obtain uid b0 n where R: "string_value identifiers ''username'' = Some uid" "uid \<noteq> []"
    "binding p m False = Inr b0" "tid \<noteq> []" "validSubject P uid (identifierType p)"
    "validBinding (b0\<lparr>TransactionID := tid\<rparr>)" "s' = s\<lparr>tick := Suc n\<rparr>"
    and S: "mailpit_SendOTP E c (call_ctx E) \<lparr>otp_Identifier = uid, otp_IdentifierType = identifierType p,
         otp_Binding = b0\<lparr>TransactionID := tid\<rparr>, otp_Channels = channels p\<rparr> v (tick s) = (None, v', n)"
    using adapter_sent [OF assms(1,2)] by (auto simp: mailpit_verifier_def)
  let ?b = "b0\<lparr>TransactionID := tid\<rparr>"
  have key: "verify_key (bound_request p uid given ?b) = send_key \<lparr>otp_Identifier = uid,
      otp_IdentifierType = identifierType p, otp_Binding = ?b, otp_Channels = channels p\<rparr>" for given
    by (simp add: verify_key_def send_key_def bound_request_def)
  obtain code sa j where J: "outbox v' = outbox v @ smtp_script c code" "length code = 6" "list_all is_digit code"
    "tick s \<le> j" "j + 2 < n"
    "\<And>given y k. fst (mailpit_Verify E y (bound_request p uid given ?b) v' k) = None \<longleftrightarrow> y k = None
       \<and> env_now E (Suc k) < env_now E (j + 2) + mailpitChallengeTTL \<and> sha256 (sa @ code) = sha256 (sa @ given)"
    using mailpit_SendOTP_then_Verify [OF S] key by (auto simp: bound_request_def)
  show thesis
    using that [of uid ?b code "j + 2" sa] R J binding_again [OF R(3,4) assms(3,4)] by simp
qed

end
