(* ===== verification/ModuleArchive.thy ===== *)
theory ModuleArchive
  imports GoCrypto
begin

text \<open>
  \<open>integration/modulearchive/main.go\<close>: a module zip is hashed entry by entry and extracted
  only when the checksum of all of it is the pinned one. The zip reader gives a list of
  entries; each can be opened and read once in the verifying pass and once in the extracting
  pass. The operating system is what it answers to each operation, given those before it;
  the operations carried out are a log. Lexical paths (\<open>filepath.Clean\<close>, \<open>Join\<close>, \<open>Dir\<close>,
  \<open>IsLocal\<close>) are modelled as on Unix.
\<close>

section \<open>Lexical paths\<close>

text \<open>One path element onto the stack of the cleaned ones, the last one first.\<close>

definition clean_elem :: "bool \<Rightarrow> string list \<Rightarrow> string \<Rightarrow> string list" where
  "clean_elem rooted stack part =
     (if part = [] \<or> part = ''.'' then stack
      else if part = ''..'' then
        (case stack of
           e # rest \<Rightarrow> if e \<noteq> ''..'' then rest else ''..'' # stack
         | [] \<Rightarrow> if rooted then [] else [''..''])
      else part # stack)"

definition is_rooted :: "string \<Rightarrow> bool" where
  "is_rooted p \<longleftrightarrow> p \<noteq> [] \<and> hd p = CHR ''/''"

definition path_stack :: "string \<Rightarrow> string list" where
  "path_stack p = foldl (clean_elem (is_rooted p)) [] (split_on (CHR ''/'') p)"

definition show_path :: "bool \<Rightarrow> string list \<Rightarrow> string" where
  "show_path rooted elems =
     (if rooted then CHR ''/'' # join ''/'' elems else if elems = [] then ''.'' else join ''/'' elems)"

definition path_clean :: "string \<Rightarrow> string" where
  "path_clean p = show_path (is_rooted p) (rev (path_stack p))"

definition path_join :: "string \<Rightarrow> string \<Rightarrow> string" where
  "path_join a b = (if a = [] \<and> b = [] then []
     else if a = [] then path_clean b else if b = [] then path_clean a
     else path_clean (a @ ''/'' @ b))"

text \<open>\<open>filepath.Dir\<close>: everything up to the last separator, cleaned.\<close>

definition path_dir :: "string \<Rightarrow> string" where
  "path_dir p = path_clean (rev (dropWhile (\<lambda>c. c \<noteq> CHR ''/'') (rev p)))"

definition is_local :: "string \<Rightarrow> bool" where
  "is_local p =
     (if is_rooted p \<or> p = [] then False
      else (let q = (if list_ex (\<lambda>part. part = ''.'' \<or> part = ''..'') (split_on (CHR ''/'') p)
                     then path_clean p else p)
            in \<not> (q = ''..'' \<or> prefix ''../'' q)))"

section \<open>The archive\<close>

text \<open>Opening an entry: a failure, or the bytes it delivers, with a read and a close error.\<close>

datatype stream = OpenFails | Stream string bool bool

record zip_file =
  Name :: string
  AttrDir :: bool
  AttrSymlink :: bool
  AttrExec :: bool
  FirstOpen :: stream
  SecondOpen :: stream

text \<open>\<open>Mode().IsDir()\<close>: by its attributes, or by a trailing slash of the name.\<close>

definition is_dir :: "zip_file \<Rightarrow> bool" where
  "is_dir f \<longleftrightarrow> AttrDir f \<or> Name f \<noteq> [] \<and> last (Name f) = CHR ''/''"

datatype extract_error =
  ArchiveUnavailable | InvalidEntry | UnexpectedPrefix | InvalidPath | ReadFailed
| ChecksumMismatch | OsFailed

definition under_prefix :: "string \<Rightarrow> string \<Rightarrow> bool" where
  "under_prefix pre name \<longleftrightarrow> prefix (pre @ ''/'') name"

definition relative :: "string \<Rightarrow> string \<Rightarrow> string" where
  "relative pre name = (if under_prefix pre name then drop (length pre + 1) name else name)"

definition manifest_line :: "string \<Rightarrow> string \<Rightarrow> string" where
  "manifest_line content name = hex_encode (sha256 content) @ ''  '' @ name @ [CHR 0x0A]"

text \<open>The first loop: what is hashed, or the first failure.\<close>

fun verify_files :: "string \<Rightarrow> string \<Rightarrow> zip_file list \<Rightarrow> extract_error + string" where
  "verify_files pre previous [] = Inr []"
| "verify_files pre previous (f # fs) =
     (if Name f = previous \<or> CHR 0x0A \<in> set (Name f) then Inl InvalidEntry
      else if \<not> under_prefix pre (Name f) then Inl UnexpectedPrefix
      else if \<not> is_local (relative pre (Name f)) \<or> AttrSymlink f then Inl InvalidPath
      else (case FirstOpen f of
        OpenFails \<Rightarrow> Inl ReadFailed
      | Stream content read_failed close_failed \<Rightarrow>
          if read_failed \<or> close_failed then Inl ReadFailed
          else (case verify_files pre (Name f) fs of
            Inl e \<Rightarrow> Inl e
          | Inr rest \<Rightarrow> Inr (manifest_line content (Name f) @ rest))))"

definition h1 :: "string \<Rightarrow> string" where
  "h1 manifest = ''h1:'' @ std_base64 (sha256 manifest)"

section \<open>Extraction\<close>

datatype fs_op =
  MkdirAll string | CreateExcl string bool | WriteAll string string | CloseFile string

fun op_path :: "fs_op \<Rightarrow> string" where
  "op_path (MkdirAll p) = p"
| "op_path (CreateExcl p x) = p"
| "op_path (WriteAll p b) = p"
| "op_path (CloseFile p) = p"

type_synonym os = "fs_op list \<Rightarrow> fs_op \<Rightarrow> bool"

text \<open>Operations in order until one fails; the failing one is in the log.\<close>

fun run_ops :: "os \<Rightarrow> fs_op list \<Rightarrow> fs_op list \<Rightarrow> bool \<times> fs_op list" where
  "run_ops os acc [] = (True, acc)"
| "run_ops os acc (x # xs) = (if os acc x then run_ops os (acc @ [x]) xs else (False, acc @ [x]))"

definition copy_stream :: "os \<Rightarrow> string \<Rightarrow> stream \<Rightarrow> fs_op list \<Rightarrow> extract_error option \<times> fs_op list" where
  "copy_stream os target s acc = (case s of
     OpenFails \<Rightarrow> (Some ReadFailed, acc @ [CloseFile target])
   | Stream content read_failed close_failed \<Rightarrow>
       (let written = os acc (WriteAll target content);
            log1 = acc @ [WriteAll target content];
            closed = os log1 (CloseFile target);
            log2 = log1 @ [CloseFile target]
        in if \<not> written then (Some OsFailed, log2)
           else if read_failed \<or> close_failed then (Some ReadFailed, log2)
           else if \<not> closed then (Some OsFailed, log2)
           else (None, log2)))"

definition extract_file :: "os \<Rightarrow> string \<Rightarrow> string \<Rightarrow> zip_file \<Rightarrow> fs_op list
    \<Rightarrow> extract_error option \<times> fs_op list" where
  "extract_file os pre destination f acc =
     (let target = path_join destination (relative pre (Name f))
      in if is_dir f then
           (case run_ops os acc [MkdirAll target] of (ok, log) \<Rightarrow>
              (if ok then None else Some OsFailed, log))
         else (case run_ops os acc [MkdirAll (path_dir target), CreateExcl target (AttrExec f)] of
           (ok, log) \<Rightarrow> if \<not> ok then (Some OsFailed, log) else copy_stream os target (SecondOpen f) log))"

fun extract_files :: "os \<Rightarrow> string \<Rightarrow> string \<Rightarrow> zip_file list \<Rightarrow> fs_op list
    \<Rightarrow> extract_error option \<times> fs_op list" where
  "extract_files os pre destination [] acc = (None, acc)"
| "extract_files os pre destination (f # fs) acc =
     (case extract_file os pre destination f acc of
        (Some e, log) \<Rightarrow> (Some e, log)
      | (None, log) \<Rightarrow> extract_files os pre destination fs log)"

text \<open>
  \<open>extract\<close>: entries of equal names are refused, so the order the unstable sort gives them
  does not matter to what is extracted.
\<close>

definition extract_archive :: "os \<Rightarrow> zip_file list option \<Rightarrow> string \<Rightarrow> string \<Rightarrow> string
    \<Rightarrow> extract_error option \<times> fs_op list" where
  "extract_archive os archive pre expected destination = (case archive of
     None \<Rightarrow> (Some ArchiveUnavailable, [])
   | Some source \<Rightarrow>
       (let files = sort_key Name source
        in case verify_files pre [] files of
             Inl e \<Rightarrow> (Some e, [])
           | Inr manifest \<Rightarrow>
               if h1 manifest \<noteq> expected then (Some ChecksumMismatch, [])
               else extract_files os pre destination files []))"

text \<open>\<open>main\<close>: the exit code; \<open>open_archive\<close> is \<open>zip.OpenReader\<close>.\<close>

definition main :: "os \<Rightarrow> (string \<Rightarrow> zip_file list option) \<Rightarrow> string list \<Rightarrow> nat \<times> fs_op list" where
  "main os open_archive args = (case args of
     [_, archive, pre, expected, destination] \<Rightarrow>
       (case extract_archive os (open_archive archive) pre expected destination of (e, log) \<Rightarrow>
          (if e = None then 0 else 1, log))
   | _ \<Rightarrow> (2, []))"

section \<open>Local paths stay inside\<close>

lemma clean_elem_rooted: "stack \<noteq> [] \<Longrightarrow> clean_elem b stack part = clean_elem b' stack part"
  by (cases stack) (simp_all add: clean_elem_def)

text \<open>A parent element at the bottom of an unrooted stack stays there.\<close>

lemma dotdot_stays:
  assumes "last stack = ''..''" and "stack \<noteq> []"
  shows "foldl (clean_elem False) stack ps \<noteq> [] \<and> last (foldl (clean_elem False) stack ps) = ''..''"
  using assms
proof (induction ps arbitrary: stack)
  case (Cons p ps)
  have "clean_elem False stack p \<noteq> [] \<and> last (clean_elem False stack p) = ''..''"
    using Cons.prems by (cases stack; cases "tl stack") (auto simp: clean_elem_def)
  with Cons.IH show ?case by simp
qed simp

text \<open>Elements that never climb out of their own stack do the same above any other.\<close>

lemma clean_above:
  assumes "''..'' \<notin> set (foldl (clean_elem False) stack ps)" and "''..'' \<notin> set stack"
  shows "foldl (clean_elem b) (stack @ below) ps = foldl (clean_elem False) stack ps @ below"
  using assms
proof (induction ps arbitrary: stack)
  case (Cons p ps)
  show ?case
  proof (cases "p = ''..'' \<and> stack = []")
    case True
    then have "foldl (clean_elem False) stack (p # ps) = foldl (clean_elem False) [''..''] ps"
      by (simp add: clean_elem_def)
    then have "''..'' \<in> set (foldl (clean_elem False) stack (p # ps))"
      using dotdot_stays [of "[''..'']" ps] last_in_set by fastforce
    then show ?thesis using Cons.prems(1) by simp
  next
    case False
    have step: "clean_elem b (stack @ below) p = clean_elem False stack p @ below"
      using False Cons.prems(2) by (cases stack) (auto simp: clean_elem_def)
    have "''..'' \<notin> set (clean_elem False stack p)"
      using False Cons.prems(2) by (cases stack) (auto simp: clean_elem_def)
    with Cons.IH [of "clean_elem False stack p"] Cons.prems(1) show ?thesis by (simp add: step)
  qed
qed simp

text \<open>Only the bottom of an unrooted stack can be a parent element, and then all above are not.\<close>

lemma dotdot_bottom:
  assumes "\<forall>i < length stack. stack ! i = ''..'' \<longrightarrow> last stack = ''..''"
  shows "''..'' \<in> set (foldl (clean_elem False) stack ps)
    \<Longrightarrow> last (foldl (clean_elem False) stack ps) = ''..''"
  using assms
proof (induction ps arbitrary: stack)
  case Nil
  then show ?case by (auto simp: in_set_conv_nth)
next
  case (Cons p ps)
  have inv: "''..'' \<in> set st \<longrightarrow> last st = ''..''" if "st = clean_elem False stack p" for st
  proof -
    have "''..'' \<in> set stack \<longrightarrow> last stack = ''..''" using Cons.prems(2) by (auto simp: in_set_conv_nth)
    then show ?thesis unfolding that
      by (cases stack; cases "tl stack") (auto simp: clean_elem_def)
  qed
  have "\<forall>i < length (clean_elem False stack p). clean_elem False stack p ! i = ''..''
      \<longrightarrow> last (clean_elem False stack p) = ''..''"
    using inv [OF refl] by (auto simp: in_set_conv_nth)
  with Cons.IH [of "clean_elem False stack p"] Cons.prems(1) show ?case by simp
qed

lemma split_on_cat: "split_on c (s @ c # t) = split_on c s @ split_on c t"
proof (induction s)
  case (Cons a s)
  obtain y ys where "split_on c s = y # ys" by (cases "split_on c s") auto
  then show ?case using Cons by auto
qed simp

lemma clean_elem_subset: "set (foldl (clean_elem b) stack ps) \<subseteq> set stack \<union> (set ps - {[], ''.'', ''..''}) \<union> {''..''}"
proof (induction ps arbitrary: stack)
  case (Cons p ps)
  have "set (clean_elem b stack p) \<subseteq> set stack \<union> ({p} - {[], ''.'', ''..''}) \<union> {''..''}"
    by (cases stack) (auto simp: clean_elem_def)
  with Cons [of "clean_elem b stack p"] show ?case by auto
qed auto

lemma clean_no_dotdot:
  assumes "''..'' \<notin> set ps" and "''..'' \<notin> set stack"
  shows "''..'' \<notin> set (foldl (clean_elem b) stack ps)"
  using assms
proof (induction ps arbitrary: stack)
  case (Cons p ps)
  have "''..'' \<notin> set (clean_elem b stack p)"
    using Cons.prems by (auto simp: clean_elem_def)
  with Cons show ?case by simp
qed simp

lemma join_head: "xs \<noteq> [] \<Longrightarrow> join ''/'' (x # xs) = x @ ''/'' @ join ''/'' xs"
  by (cases xs) simp_all

lemma is_local_stack:
  assumes "is_local p"
  shows "''..'' \<notin> set (foldl (clean_elem False) [] (split_on (CHR ''/'') p))" and "\<not> is_rooted p" and "p \<noteq> []"
proof -
  let ?parts = "split_on (CHR ''/'') p"
  let ?st = "foldl (clean_elem False) [] ?parts"
  show r: "\<not> is_rooted p" "p \<noteq> []" using assms by (auto simp: is_local_def split: if_splits)
  show "''..'' \<notin> set ?st"
  proof (cases "list_ex (\<lambda>part. part = ''.'' \<or> part = ''..'') ?parts")
    case False
    then show ?thesis by (intro clean_no_dotdot) (auto simp: list_ex_iff)
  next
    case True
    then have q: "\<not> (path_clean p = ''..'' \<or> prefix ''../'' (path_clean p))"
      using assms r by (simp add: is_local_def Let_def)
    show ?thesis
    proof
      assume m: "''..'' \<in> set ?st"
      then have l: "last ?st = ''..''" "?st \<noteq> []" using dotdot_bottom [of "[]" ?parts] by auto
      then obtain xs where x: "rev ?st = ''..'' # xs" by (metis hd_Cons_tl hd_rev rev_is_Nil_conv)
      have "path_clean p = join ''/'' (''..'' # xs)"
        using r l(2) x by (simp add: path_clean_def path_stack_def show_path_def)
      with q show False by (cases xs) (simp_all add: join_head del: join.simps(3))
    qed
  qed
qed

text \<open>
  A path at or below a directory: its cleaned elements are those of the directory and then
  elements that do not climb.
\<close>

definition path_under :: "string \<Rightarrow> string \<Rightarrow> bool" where
  "path_under d p \<longleftrightarrow> (\<exists>elems. p = show_path (is_rooted d) (rev (path_stack d) @ elems)
     \<and> (\<forall>e \<in> set elems. e \<notin> {[], ''.'', ''..''} \<and> CHR ''/'' \<notin> set e))"

lemma join_under:
  assumes "is_local rel"
  shows "path_under d (path_join d rel)"
proof -
  let ?st = "foldl (clean_elem False) [] (split_on (CHR ''/'') rel)"
  note L = is_local_stack [OF assms]
  have elems: "\<forall>e \<in> set (rev ?st). e \<notin> {[], ''.'', ''..''} \<and> CHR ''/'' \<notin> set e"
    using clean_elem_subset [of False "[]" "split_on (CHR ''/'') rel"] L(1)
    by (auto dest: split_on_pieces)
  have "path_join d rel = show_path (is_rooted d) (rev (path_stack d) @ rev ?st)"
  proof (cases "d = []")
    case True
    then show ?thesis using L(2,3)
      by (simp add: path_join_def path_clean_def path_stack_def is_rooted_def clean_elem_def)
  next
    case False
    have r: "is_rooted (d @ ''/'' @ rel) = is_rooted d" using False by (simp add: is_rooted_def)
    have "path_stack (d @ ''/'' @ rel) = ?st @ path_stack d"
      using clean_above [OF L(1), of "is_rooted d" "path_stack d"]
      by (simp add: path_stack_def r [simplified] split_on_cat)
    then show ?thesis using False L(3) r by (simp add: path_join_def path_clean_def)
  qed
  with elems show ?thesis unfolding path_under_def by blast
qed

section \<open>The verifying pass\<close>

lemma verify_files_ok:
  assumes "verify_files pre previous fs = Inr manifest"
  shows "\<forall>f \<in> set fs. under_prefix pre (Name f) \<and> is_local (relative pre (Name f)) \<and> \<not> AttrSymlink f
      \<and> CHR 0x0A \<notin> set (Name f) \<and> (\<exists>content. FirstOpen f = Stream content False False)"
    and "manifest = concat (map (\<lambda>f. case FirstOpen f of Stream content a b \<Rightarrow>
        manifest_line content (Name f) | OpenFails \<Rightarrow> []) fs)"
  using assms
  by (induction fs arbitrary: previous manifest)
    (auto split: if_splits stream.splits sum.splits)

lemma verify_files_distinct:
  assumes "verify_files pre previous fs = Inr manifest" and "sorted (map Name fs)"
  shows "distinct (map Name fs)"
  using assms
proof (induction fs arbitrary: previous manifest)
  case (Cons f fs)
  have next_ok: "\<exists>rest. verify_files pre (Name f) fs = Inr rest"
    using Cons.prems(1) by (auto split: if_splits stream.splits sum.splits)
  have "Name f \<notin> Name ` set fs"
  proof (cases fs)
    case (Cons g gs)
    have "Name g \<noteq> Name f" using next_ok Cons by (auto split: if_splits)
    moreover have "Name f \<le> Name g" "\<forall>h \<in> set gs. Name g \<le> Name h"
      using Cons.prems(2) Cons by auto
    ultimately show ?thesis using Cons by fastforce
  qed simp
  with Cons next_ok show ?case by auto
qed simp

text \<open>Different lists of names and digests give different texts to hash.\<close>

lemma hex_no_newline: "CHR 0x0A \<notin> set (hex_encode s)"
proof -
  have "lower_hex n \<noteq> CHR 0x0A" if "n < 16" for n
  proof -
    have "48 \<le> byte (lower_hex n)" using that by (simp add: lower_hex_def)
    then show ?thesis by auto
  qed
  then have "lower_hex (byte c div 16) \<noteq> CHR 0x0A \<and> lower_hex (byte c mod 16) \<noteq> CHR 0x0A" for c
    by simp
  then show ?thesis by (auto simp: hex_encode_def dest: sym)
qed

definition manifest_text :: "(string \<times> string) list \<Rightarrow> string" where
  "manifest_text es = concat (map (\<lambda>(name, content). manifest_line content name) es)"

lemma split_manifest:
  assumes "\<forall>(name, content) \<in> set es. CHR 0x0A \<notin> set name"
  shows "split_on (CHR 0x0A) (manifest_text es)
    = map (\<lambda>(name, content). hex_encode (sha256 content) @ ''  '' @ name) es @ [[]]"
  using assms
proof (induction es)
  case Nil
  then show ?case by (simp add: manifest_text_def)
next
  case (Cons e es)
  obtain name content where e: "e = (name, content)" by (cases e)
  have "manifest_text (e # es)
      = (hex_encode (sha256 content) @ ''  '' @ name) @ CHR 0x0A # manifest_text es"
    by (simp add: manifest_text_def manifest_line_def e)
  moreover have "CHR 0x0A \<notin> set (hex_encode (sha256 content) @ ''  '' @ name)"
    using Cons.prems hex_no_newline by (auto simp: e)
  ultimately have "split_on (CHR 0x0A) (manifest_text (e # es))
      = (hex_encode (sha256 content) @ ''  '' @ name) # split_on (CHR 0x0A) (manifest_text es)"
    using split_on_append [of "CHR 0x0A" "hex_encode (sha256 content) @ ''  '' @ name" "manifest_text es"]
    by (simp only: simp_thms)
  then show ?case using Cons by (simp add: e)
qed

lemma manifest_text_inj:
  assumes "manifest_text es = manifest_text es'"
    and "\<forall>(name, content) \<in> set es. CHR 0x0A \<notin> set name"
    and "\<forall>(name, content) \<in> set es'. CHR 0x0A \<notin> set name"
  shows "map (\<lambda>(name, content). (name, sha256 content)) es = map (\<lambda>(name, content). (name, sha256 content)) es'"
proof -
  let ?f = "\<lambda>(name, content). hex_encode (sha256 content) @ ''  '' @ name"
  have "map ?f es = map ?f es'"
    using split_manifest [OF assms(2)] split_manifest [OF assms(3)] assms(1) by simp
  then show ?thesis
  proof (induction es arbitrary: es')
    case (Cons e es)
    then obtain e' rest where r: "es' = e' # rest" by (cases es') auto
    have "?f e = ?f e'" "map ?f es = map ?f rest" using Cons.prems r by simp_all
    then show ?case using Cons.IH [of rest] r
      by (cases e; cases e') (auto dest!: hex_encode_inj)
  qed simp
qed

section \<open>The extracting pass\<close>

lemma run_ops_log:
  assumes "run_ops os acc xs = (ok, log)"
  shows "\<exists>k. log = acc @ take k xs" and "ok \<Longrightarrow> log = acc @ xs"
proof -
  have "(\<exists>k. log = acc @ take k xs) \<and> (ok \<longrightarrow> log = acc @ xs)"
    using assms
  proof (induction xs arbitrary: acc)
    case (Cons x xs)
    show ?case
    proof (cases "os acc x")
      case True
      then have "run_ops os (acc @ [x]) xs = (ok, log)" using Cons.prems by simp
      from Cons.IH [OF this] obtain k where "log = (acc @ [x]) @ take k xs" "ok \<longrightarrow> log = (acc @ [x]) @ xs"
        by blast
      then show ?thesis by (auto intro!: exI [of _ "Suc k"])
    next
      case False
      then show ?thesis using Cons.prems by (auto intro!: exI [of _ 1])
    qed
  qed simp
  then show "\<exists>k. log = acc @ take k xs" "ok \<Longrightarrow> log = acc @ xs" by auto
qed

definition target_of :: "string \<Rightarrow> string \<Rightarrow> zip_file \<Rightarrow> string" where
  "target_of pre destination f = path_join destination (relative pre (Name f))"

text \<open>The operations a complete extraction of one entry consists of.\<close>

definition file_ops :: "string \<Rightarrow> string \<Rightarrow> zip_file \<Rightarrow> fs_op list" where
  "file_ops pre destination f =
     (let t = target_of pre destination f
      in if is_dir f then [MkdirAll t]
         else (case SecondOpen f of
           Stream content _ _ \<Rightarrow> [MkdirAll (path_dir t), CreateExcl t (AttrExec f), WriteAll t content, CloseFile t]
         | OpenFails \<Rightarrow> [MkdirAll (path_dir t), CreateExcl t (AttrExec f), CloseFile t]))"

lemma copy_stream_log:
  assumes "copy_stream os t st acc = (r, log)"
  shows "log = acc @ (case st of OpenFails \<Rightarrow> [CloseFile t] | Stream content _ _ \<Rightarrow> [WriteAll t content, CloseFile t])"
    and "r = None \<Longrightarrow> \<exists>content. st = Stream content False False"
  using assms by (auto simp: copy_stream_def Let_def split: stream.splits if_splits)

lemma extract_file_log:
  assumes "extract_file os pre destination f acc = (r, log)"
  shows "\<exists>k. log = acc @ take k (file_ops pre destination f)"
    and "r = None \<Longrightarrow> log = acc @ file_ops pre destination f
      \<and> (is_dir f \<or> (\<exists>content. SecondOpen f = Stream content False False))"
proof -
  let ?t = "target_of pre destination f"
  have "(\<exists>k. log = acc @ take k (file_ops pre destination f))
      \<and> (r = None \<longrightarrow> log = acc @ file_ops pre destination f
      \<and> (is_dir f \<or> (\<exists>content. SecondOpen f = Stream content False False)))"
  proof (cases "is_dir f")
    case True
    obtain ok l where R: "run_ops os acc [MkdirAll ?t] = (ok, l)" by (cases "run_ops os acc [MkdirAll ?t]")
    then have "r = (if ok then None else Some OsFailed)" "log = l"
      using assms True by (simp_all add: extract_file_def target_of_def Let_def)
    then show ?thesis using run_ops_log [OF R] True by (auto simp: file_ops_def Let_def)
  next
    case False
    let ?two = "[MkdirAll (path_dir ?t), CreateExcl ?t (AttrExec f)]"
    define tail where "tail = (case SecondOpen f of OpenFails \<Rightarrow> [CloseFile ?t]
      | Stream content _ _ \<Rightarrow> [WriteAll ?t content, CloseFile ?t])"
    have ops: "file_ops pre destination f = ?two @ tail"
      using False by (simp add: file_ops_def tail_def Let_def split: stream.splits)
    obtain ok l where R: "run_ops os acc ?two = (ok, l)" by (cases "run_ops os acc ?two")
    have E: "(r, log) = (if \<not> ok then (Some OsFailed, l) else copy_stream os ?t (SecondOpen f) l)"
      using assms False R by (simp add: extract_file_def target_of_def Let_def split: if_splits)
    show ?thesis
    proof (cases ok)
      case True
      then have c: "copy_stream os ?t (SecondOpen f) l = (r, log)" using E by simp
      have "log = acc @ ?two @ tail"
        using copy_stream_log(1) [OF c] run_ops_log(2) [OF R True] by (simp add: tail_def)
      then show ?thesis using copy_stream_log(2) [OF c] ops
        by (auto intro!: exI [of _ "length (file_ops pre destination f)"])
    next
      case not_ok: False
      obtain k where k: "l = acc @ take k ?two" using run_ops_log(1) [OF R] by blast
      have "take k ?two = take (min k 2) (?two @ tail)" by (cases k; cases "k - 1") simp_all
      then show ?thesis using not_ok E k ops by (auto intro!: exI [of _ "min k 2"])
    qed
  qed
  then show "\<exists>k. log = acc @ take k (file_ops pre destination f)"
    "r = None \<Longrightarrow> log = acc @ file_ops pre destination f
      \<and> (is_dir f \<or> (\<exists>content. SecondOpen f = Stream content False False))" by blast+
qed

text \<open>Extraction carries out the operations of the entries in order, all of them on success.\<close>

lemma extract_files_log:
  assumes "extract_files os pre destination fs acc = (r, log)"
  shows "\<exists>k. log = acc @ take k (concat (map (file_ops pre destination) fs))"
    and "r = None \<Longrightarrow> log = acc @ concat (map (file_ops pre destination) fs)
      \<and> (\<forall>f \<in> set fs. is_dir f \<or> (\<exists>content. SecondOpen f = Stream content False False))"
proof -
  have "(\<exists>k. log = acc @ take k (concat (map (file_ops pre destination) fs)))
    \<and> (r = None \<longrightarrow> log = acc @ concat (map (file_ops pre destination) fs)
      \<and> (\<forall>f \<in> set fs. is_dir f \<or> (\<exists>content. SecondOpen f = Stream content False False)))"
    using assms
  proof (induction fs arbitrary: acc)
    case (Cons f fs)
    obtain q l where F: "extract_file os pre destination f acc = (q, l)"
      by (cases "extract_file os pre destination f acc")
    show ?case
    proof (cases q)
      case None
      then have "extract_files os pre destination fs l = (r, log)" using Cons.prems F by simp
      from Cons.IH [OF this] obtain k where k:
        "log = l @ take k (concat (map (file_ops pre destination) fs))"
        "r = None \<longrightarrow> log = l @ concat (map (file_ops pre destination) fs)
          \<and> (\<forall>f \<in> set fs. is_dir f \<or> (\<exists>content. SecondOpen f = Stream content False False))" by blast
      have l: "l = acc @ file_ops pre destination f"
        "is_dir f \<or> (\<exists>content. SecondOpen f = Stream content False False)"
        using extract_file_log(2) [OF F None] by auto
      show ?thesis using k l
        by (auto intro!: exI [of _ "length (file_ops pre destination f) + k"])
    next
      case (Some e)
      then have rl: "r = Some e" "log = l" using Cons.prems F by simp_all
      obtain k where k: "l = acc @ take k (file_ops pre destination f)"
        using extract_file_log(1) [OF F] by blast
      have "take k (file_ops pre destination f)
          = take (min k (length (file_ops pre destination f))) (concat (map (file_ops pre destination) (f # fs)))"
        by (simp add: min_def)
      then show ?thesis using rl k by (auto intro!: exI [of _ "min k (length (file_ops pre destination f))"])
    qed
  qed simp
  then show "\<exists>k. log = acc @ take k (concat (map (file_ops pre destination) fs))"
    "r = None \<Longrightarrow> log = acc @ concat (map (file_ops pre destination) fs)
      \<and> (\<forall>f \<in> set fs. is_dir f \<or> (\<exists>content. SecondOpen f = Stream content False False))" by blast+
qed

text \<open>Where an operation may act: at or below the destination, or the directory of such a path.\<close>

definition op_inside :: "string \<Rightarrow> fs_op \<Rightarrow> bool" where
  "op_inside d x \<longleftrightarrow> path_under d (op_path x) \<or> (\<exists>q. path_under d q \<and> x = MkdirAll (path_dir q))"

lemma file_ops_inside:
  assumes "is_local (relative pre (Name f))" and "x \<in> set (file_ops pre destination f)"
  shows "op_inside destination x"
proof -
  have "path_under destination (target_of pre destination f)"
    unfolding target_of_def by (rule join_under [OF assms(1)])
  then show ?thesis using assms(2)
    by (auto simp: file_ops_def op_inside_def Let_def split: if_splits stream.splits)
qed

lemma extract_archive_cases:
  assumes "extract_archive os (Some src) pre expected destination = (r, log)"
  obtains (refused) e where "r = Some e" "log = []"
  | (extracted) manifest where "verify_files pre [] (sort_key Name src) = Inr manifest" "h1 manifest = expected"
      "extract_files os pre destination (sort_key Name src) [] = (r, log)"
  using assms
  by (auto simp: extract_archive_def Let_def split: sum.splits if_splits)

end
