(* ===== verification/Example.thy ===== *)
theory Example
  imports TokenRuns Policy Login ModuleArchive
begin

text \<open>
  One small deployment, on which the hypotheses of the properties are seen to hold together:
  a registry with the field \<open>uin\<close>, a cached token, and a world whose clock stands still and
  whose registry answers every request with the record of one person.
\<close>

definition ex_breg :: BREGConfig where
  "ex_breg = \<lparr>BaseURL = ''https://r'', Route = ''p'', Selector = ''s'', SelectorField = ''uin'',
     AccessProfile = [], ProvisionedFields = [''uin'', ''name''], AccountCheckFields = [''uin'']\<rparr>"

definition ex_token_client :: TokenClientConfig where
  "ex_token_client = \<lparr>TokenEndpoint = ''https://a'', AssertionAudience = ''https://a'',
     tc_ClientID = ''c'', PrivateKeyFile = ''k'', KeyID = ''1'', Resource = ''https://r'',
     Scopes = [''read''], AssertionTTLSeconds = 120, TokenCacheMaxSeconds = 300\<rparr>"

definition ex_mailpit :: MailpitConfig where
  "ex_mailpit = \<lparr>mp_Enabled = False, SMTPAddress = ''localhost:25'', Sender = ''a@b'', Recipient = ''c@d''\<rparr>"

definition ex_config :: Config where
  "ex_config = \<lparr>SubjectIDType = ''uin'', PSUTSecretFile = ''s'', BREG = ex_breg,
     TokenClient = ex_token_client, ClaimMap = [(''sub'', ''$psut''), (''name'', ''name'')],
     HTTP = \<lparr>TimeoutSeconds = 10, MaxResponseBytes = 1048576, AllowInsecureHTTP = False, CAFile = []\<rparr>,
     Demo = \<lparr>StaticOTPEnabled = True, StaticOTPFile = ''o'', Mailpit = ex_mailpit\<rparr>\<rparr>"

definition ex_provider :: provider where
  "ex_provider = \<lparr>config = ex_config, secret = replicate 32 (CHR ''x''),
     key = \<lparr>ak_key = ECDSAKey True 1 2 3, ak_kid = ''1'', ak_alg = ''ES256''\<rparr>\<rparr>"

definition ex_record :: goobj where
  "ex_record = [(''name'', JStr ''Ann''), (''uin'', JStr ''7'')]"

definition ex_body :: string where
  "ex_body = marshal (JObj [(''data'', JObj [(''domainData'', JObj ex_record)])])"

definition ex_token_body :: string where
  "ex_token_body = marshal (JObj [(''access_token'', JStr ''t''), (''token_type'', JStr ''Bearer''),
     (''expires_in'', JNum (show_int 600))])"

text \<open>The clock stands at 1000 seconds; nothing is cancelled and nothing fails.\<close>

definition ex_env :: env where
  "ex_env = \<lparr>env_now = (\<lambda>_. 1000 * second), env_ctx = (\<lambda>_. None), env_timeout = (\<lambda>_. False),
     env_code = (\<lambda>_. Some 42), env_smtp = (\<lambda>_ _. True), env_http = (\<lambda>_ rq.
       HttpResponse 200 (if rq_url rq = ''https://a'' then ex_token_body else ex_body) False),
     env_rand = (\<lambda>_. Some (\<lambda>i. CHR ''a'')),
     env_signer = (\<lambda>_. \<lparr>sign_rsa = (\<lambda>_ _. None), sign_ecdsa = (\<lambda>_ _. Some (1, 1))\<rparr>)\<rparr>"

lemma ex_env_simps [simp]:
  "env_now ex_env n = 1000 * second" "env_ctx ex_env n = None" "env_timeout ex_env n = False"
  "call_ctx ex_env n = None" "mono (env_now ex_env)"
  by (simp_all add: ex_env_def call_ctx_def mono_def)

lemma ex_unix [simp]: "unix (1000 * second) = 1000"
  by (simp add: unix_def second_def)

definition ex_state :: pstate where
  "ex_state = \<lparr>token = ''t'', tokenDeadline = 1100 * second, tick = 0, sent = []\<rparr>"

definition ex_binding :: Binding where
  "ex_binding = \<lparr>RelyingPartyID = ''rp'', ClientID = ''cl'', TransactionID = ''tx''\<rparr>"

definition ex_request :: ChallengeRequest where
  "ex_request = \<lparr>cr_Identifier = ''7'', cr_IdentifierType = ''uin'', cr_Challenge = ''42'', cr_Binding = ex_binding\<rparr>"

section \<open>The registry's URL and request\<close>

lemma ex_target: "lookup_target ex_breg = ''https://r/v1/records/p:lookup''"
  by (simp add: lookup_target_def ex_breg_def trim_right_def url_eval)

lemma ex_target_url: "url_parse ''https://r/v1/records/p:lookup''
    = Some (empty_url\<lparr>Scheme := ''https'', Host := ''r'', Path := ''/v1/records/p:lookup''\<rparr>)"
  by (simp add: url_eval Let_def)

lemma ex_query: "form_encode (lookup_query ex_breg [''uin'']) = ''%24select=uin''"
  by (simp add: form_encode_def lookup_query_def ex_breg_def url_eval upper_hex_def)

lemma ex_printed: "url_string (empty_url\<lparr>Scheme := ''https'', Host := ''r'', Path := ''/v1/records/p:lookup'',
    RawQuery := ''%24select=uin''\<rparr>) = ''https://r/v1/records/p:lookup?%24select=uin''"
  by (simp add: url_string_def escaped_path_def url_authority_def url_eval)

lemma ex_printed_url: "url_parse ''https://r/v1/records/p:lookup?%24select=uin''
    = Some (empty_url\<lparr>Scheme := ''https'', Host := ''r'', Path := ''/v1/records/p:lookup'',
        RawQuery := ''%24select=uin''\<rparr>)"
  by (simp add: url_eval Let_def)

definition ex_http_request :: http_request where
  "ex_http_request = \<lparr>rq_url = ''https://r/v1/records/p:lookup?%24select=uin'',
     rq_content_type = ''application/json'', rq_accept = ''application/json'',
     rq_authorization = Some ''Bearer t'', rq_body = marshal (lookup_body ex_breg ''7'')\<rparr>"

lemma ex_lookup_request: "lookup_request ex_breg ''t'' ''7'' [''uin''] = Some ex_http_request"
  by (simp add: lookup_request_def ex_target ex_target_url ex_query ex_printed new_request_def
      ex_printed_url ex_http_request_def)

section \<open>One lookup\<close>

lemma ex_body_parsed: "parse_doc ex_body = Some (JObj [(''data'', JObj [(''domainData'', JObj ex_record)])])"
  unfolding ex_body_def by (subst parse_doc_marshal) (simp_all add: ex_record_def max_nesting_def sanitize_ascii)

lemma ex_body_decoded: "decodeJSON lookup_member None ex_body = Some (Some ex_record)"
  by (simp add: decodeJSON_def ex_body_parsed decode_struct_def lookup_member_def data_member_def)
    (simp add: ex_record_def canon_members_def less_char_def less_eq_char_def)

lemma ex_body_length: "length ex_body \<le> 1048576"
  by (simp add: ex_body_def ex_record_def json_eval)

definition ex_looked_up :: "nat \<Rightarrow> pstate" where
  "ex_looked_up n = ex_state\<lparr>tick := n, sent := [ex_http_request]\<rparr>"

lemma ex_access_at: "accessToken ex_env ex_provider (ex_state\<lparr>tick := n\<rparr>) = (Inr ''t'', ex_state\<lparr>tick := n + 2\<rparr>)"
  by (simp add: accessToken_def ctx_done_def token_fresh_def now_def ex_state_def second_def)

lemma ex_state_at_0: "ex_state\<lparr>tick := 0\<rparr> = ex_state"
  by (simp add: ex_state_def)

lemma ex_access_token: "accessToken ex_env ex_provider ex_state = (Inr ''t'', ex_state\<lparr>tick := 2\<rparr>)"
  using ex_access_at [of 0] by (simp only: ex_state_at_0 add_0)

lemma ex_lookup:
  "lookup ex_env ex_provider ''7'' [''uin''] (ex_state\<lparr>tick := n\<rparr>) = (Inr ex_record, ex_looked_up (n + 3))"
proof -
  have breg: "BREG (config ex_provider) = ex_breg" by (simp add: ex_provider_def ex_config_def)
  have cap: "nat (MaxResponseBytes (HTTP (config ex_provider))) = 1048576"
    by (simp add: ex_provider_def ex_config_def)
  have "request ex_env (config ex_provider) ex_http_request (ex_state\<lparr>tick := n + 2\<rparr>)
      = (Inr (200, ex_body), ex_looked_up (n + 3))"
    using ex_body_length
    by (simp add: request_def Let_def ex_env_def cap ex_looked_up_def ex_state_def)
      (simp add: ex_http_request_def)
  then show ?thesis
    by (simp add: lookup_def ex_access_at breg ex_lookup_request lookup_answer_def ex_body_decoded)
qed

text \<open>A registry that refuses the token.\<close>

definition ex_refusal :: string where
  "ex_refusal = marshal (JObj [(''code'', JStr ''authentication.refused'')])"

definition ex_refusing :: env where
  "ex_refusing = ex_env\<lparr>env_http := \<lambda>_ _. HttpResponse 401 ex_refusal False\<rparr>"

lemma ex_refusal_code: "decodeJSON problem_member [] ex_refusal = Some ''authentication.refused''"
  by (simp add: ex_refusal_def decodeJSON_def parse_doc_marshal max_nesting_def sanitize_ascii decode_struct_def
      problem_member_def del: marshal.simps)

lemma ex_refusing_access: "accessToken ex_refusing ex_provider ex_state = (Inr ''t'', ex_state\<lparr>tick := 2\<rparr>)"
  by (simp add: ex_refusing_def accessToken_def ctx_done_def token_fresh_def now_def ex_state_def second_def)

section \<open>One authentication\<close>

lemma text_eval: "validText ''7''" "validText ''uin''" "validText ''42''" "validText ''rp''"
  "validText ''cl''" "validText ''tx''"
  by (simp_all add: validText_def not_blank_visible)

lemma ex_valid_request: "valid_request ex_provider ex_request"
  by (simp add: valid_request_def validSubject_def validBinding_def ex_request_def ex_binding_def
      ex_provider_def ex_config_def text_eval)

definition ex_context :: authContext where
  "ex_context = issued_context ex_request (1000 * second)"

definition ex_result :: "go_map AuthenticationResult" where
  "ex_result = \<lparr>ar_Subject = psut ex_provider ex_context, ar_Context = GoMap (context_map ex_context)\<rparr>"

lemma ex_context_fields: "ex_context = \<lparr>ac_Version = 1, ac_Identifier = ''7'', ac_IdentifierType = ''uin'',
   ac_RelyingPartyID = ''rp'', ac_ClientID = ''cl'', ac_TransactionID = ''tx'', ac_IssuedAt = 1000, ac_ExpiresAt = 1300\<rparr>"
  by (simp add: ex_context_def issued_context_def ex_request_def ex_binding_def unix_def second_def contextTTL_def)

lemma ex_context_text: "valid_context_text ex_context"
  by (simp add: ex_context_fields valid_context_text_def valid_utf8_ascii)

lemma ex_context_identifier [simp]: "ac_Identifier ex_context = ''7''"
  by (simp add: ex_context_fields)

lemma ex_context_small: "context_size ex_context \<le> 32768"
  by (simp add: context_size_def context_map_def ex_context_fields json_eval)

lemma ex_account: "account_ok (config ex_provider) ''7'' ex_record"
  by (simp add: account_ok_def ex_provider_def ex_config_def ex_breg_def ex_record_def)

lemma ex_authenticated:
  "Authenticate ex_env ex_provider (staticVerifier ''42'') ex_request () ex_state
    = (Inr ex_result, (), ex_looked_up 7)"
proof -
  have id: "cr_Identifier ex_request = ''7''" by (simp add: ex_request_def)
  have check: "AccountCheckFields (BREG (config ex_provider)) = [''uin'']"
    by (simp add: ex_provider_def ex_config_def ex_breg_def)
  have stop: "ctx_done ex_env ex_state = (False, ex_state\<lparr>tick := 1\<rparr>)"
    by (simp add: ctx_done_def ex_state_def)
  have verify: "Verify (staticVerifier ''42'') (call_ctx ex_env) ex_request () (Suc 0) = (None, (), 2)"
    by (simp add: staticVerifier_def static_Verify_def ex_request_def)
  have finish: "auth_finish ex_env ex_provider ex_request (ex_state\<lparr>tick := 3\<rparr>) = (Inr ex_result, ex_looked_up 7)"
    using ex_lookup [of 3] ex_account clean_context_valid [OF ex_context_text]
    by (simp add: auth_finish_def id check now_def unmarshal_context Let_def ex_result_def ex_context_def)
      (simp add: ex_looked_up_def)
  show ?thesis
    by (simp add: Authenticate_def ex_valid_request stop verify is_ctx_error_def Let_def finish numeral_3_eq_3 [symmetric])
qed

lemma ex_restored: "restore ex_env ex_provider (GoMap (context_map ex_context)) ex_binding ex_state
    = (Inr ex_context, ex_state\<lparr>tick := 1\<rparr>)"
proof -
  have "restore ex_env ex_provider (GoMap (context_map (clean_context ex_context))) (cr_Binding ex_request) ex_state
      = (Inr ex_context, ex_state\<lparr>tick := Suc (tick ex_state)\<rparr>)"
    unfolding ex_context_def
    by (subst restore_issued [OF ex_valid_request])
      (simp_all add: ex_context_def [symmetric] ex_context_text ex_context_small)
  then show ?thesis
    by (simp add: clean_context_valid [OF ex_context_text]) (simp add: ex_request_def ex_state_def)
qed

lemma ex_claim_map [simp]: "ClaimMap (config ex_provider) = [(''sub'', ''$psut''), (''name'', ''name'')]"
  by (simp add: ex_provider_def ex_config_def)

lemma ex_cache_ok: "cache_ok ex_env ex_provider ex_state"
  by (simp add: cache_ok_def ex_state_def token_text_def ex_provider_def ex_config_def ex_token_client_def second_def)

lemma ex_cap: "1 \<le> TokenCacheMaxSeconds (TokenClient (config ex_provider))"
  by (simp add: ex_provider_def ex_config_def ex_token_client_def)

section \<open>One acquisition\<close>

lemma ex_endpoint: "url_parse ''https://a'' = Some (empty_url\<lparr>Scheme := ''https'', Host := ''a''\<rparr>)"
  by (simp add: url_eval Let_def)

lemma ex_token_decoded: "decodeJSON token_member no_token ex_token_body
    = Some \<lparr>AccessToken = ''t'', TokenType = ''Bearer'', ExpiresIn = 600, Scope = None\<rparr>"
proof -
  have p: "parse_doc ex_token_body = Some (JObj [(''access_token'', JStr ''t''), (''token_type'', JStr ''Bearer''),
     (''expires_in'', JNum (show_int 600))])"
    unfolding ex_token_body_def
    by (subst parse_doc_marshal) (simp_all add: max_nesting_def sanitize_ascii number_ok_show_int)
  show ?thesis
    by (simp add: decodeJSON_def p decode_struct_def token_member_def no_token_def parse_int_show_int)
qed

lemma ex_token_body_length: "length ex_token_body \<le> 1048576"
  by (simp add: ex_token_body_def json_eval)

lemma ex_token_client_simps [simp]:
  "TokenEndpoint (TokenClient (config ex_provider)) = ''https://a''"
  "TokenCacheMaxSeconds (TokenClient (config ex_provider)) = 300"
  "MaxResponseBytes (HTTP (config ex_provider)) = 1048576"
  by (simp_all add: ex_provider_def ex_config_def ex_token_client_def)

lemma ex_token_ok: "token_accepted t \<lparr>AccessToken = ''t'', TokenType = ''Bearer'', ExpiresIn = 600, Scope = None\<rparr>"
  by (simp add: token_accepted_def scope_granted_def)

lemma ex_assertion: "\<exists>a. assertion (env_signer ex_env n) (key ex_provider) (rand_read ex_env n 24) c d i e = Inr a"
  by (simp add: assertion_def Let_def ex_env_def ex_provider_def rand_read_def signature_def)

lemma ex_acquired:
  "\<exists>s'. acquire ex_env ex_provider start s = (Inr (''t'', 300 * second), s')"
proof -
  let ?t = "TokenClient (config ex_provider)"
  obtain a where A: "assertion (env_signer ex_env (tick s)) (key ex_provider) (rand_read ex_env (tick s) 24)
      (tc_ClientID ?t) (AssertionAudience ?t) (unix start) (unix start + AssertionTTLSeconds ?t) = Inr a"
    using ex_assertion by blast
  let ?rq = "\<lparr>rq_url = ''https://a'', rq_content_type = ''application/x-www-form-urlencoded'',
    rq_accept = ''application/json'', rq_authorization = None, rq_body = form_encode (token_form ?t a)\<rparr>"
  have R: "new_request ''https://a'' ''application/x-www-form-urlencoded'' None (form_encode (token_form ?t a)) = Some ?rq"
    by (simp add: new_request_def ex_endpoint)
  obtain s2 where Q: "request ex_env (config ex_provider) ?rq (s\<lparr>tick := Suc (tick s)\<rparr>) = (Inr (200, ex_token_body), s2)"
    using ex_token_body_length by (simp add: request_def Let_def ex_env_def)
  show ?thesis
    by (simp add: acquire_def Let_def A R Q ex_token_decoded ex_token_ok token_lifetime_def)
qed

section \<open>Goroutines\<close>

text \<open>A world whose network is down.\<close>

definition ex_down :: env where
  "ex_down = ex_env\<lparr>env_http := (\<lambda>_ _. TransportError)\<rparr>"

lemma ex_down_acquire: "\<exists>s'. acquire ex_down ex_provider start s = (Inl ErrUnavailable, s')"
proof (cases "fst (acquire ex_down ex_provider start s)")
  case (Inl e)
  then have "acquire ex_down ex_provider start s = (Inl e, snd (acquire ex_down ex_provider start s))"
    by (metis prod.collapse)
  with acquire_frame(5) [OF this] show ?thesis by blast
next
  case (Inr p)
  then have "acquire ex_down ex_provider start s = (Inr (fst p, snd p), snd (acquire ex_down ex_provider start s))"
    by (metis prod.collapse)
  from acquire_ok [OF this] show ?thesis by (auto simp: ex_down_def)
qed

abbreviation ex_cx :: "nat \<Rightarrow> nat \<Rightarrow> ctx_error option" where
  "ex_cx \<equiv> \<lambda>_ _. None"

text \<open>Goroutine 0 has called, entered and leads the first flight.\<close>

definition ex_led :: machine where
  "ex_led = \<lparr>cache = \<lparr>token = [], tokenDeadline = 0, tick = 2, sent = []\<rparr>, acquiring = Some 0,
     flights = [Flying], phases = (\<lambda>_. Idle)(0 := Acquiring 0 (1000 * second))\<rparr>"

lemma ex_led_steps:
  assumes "env_now E 1 = 1000 * second"
  shows "tc_reachable E acq ex_cx ex_led"
proof -
  let ?w1 = "goto (tc_start 0) 0 Calling"
  let ?w2 = "goto (?w1\<lparr>cache := cache ?w1\<lparr>tick := Suc (tick (cache ?w1))\<rparr>\<rparr>) 0 Entering"
  let ?c = "\<lparr>token = [], tokenDeadline = 0, tick = 1, sent = []\<rparr> :: pstate"
  have "tc_reachable E acq ex_cx ?w1"
    by (rule tc_reachable.more [OF tc_reachable.init]) (rule tc_step.call, simp add: tc_start_def)
  then have "tc_reachable E acq ex_cx ?w2"
    by (rule tc_reachable.more) (rule tc_step.enter, simp_all)
  moreover let ?w3 = "goto (?w2\<lparr>cache := ?c, acquiring := Some (length (flights ?w2)),
      flights := flights ?w2 @ [Flying]\<rparr>) 0 (Leading (length (flights ?w2)))"
  have "tc_step E acq ex_cx ?w2 (goto (?w2\<lparr>cache := clear_token ?c, acquiring := Some (length (flights ?w2)),
      flights := flights ?w2 @ [Flying]\<rparr>) 0 (Leading (length (flights ?w2))))"
    by (rule tc_step.lead) (simp_all add: tc_start_def token_fresh_def)
  then have "tc_step E acq ex_cx ?w2 ?w3" by (simp add: clear_token_def)
  ultimately have "tc_reachable E acq ex_cx ?w3" by (rule tc_reachable.more)
  moreover have "tc_step E acq ex_cx ?w3 (goto (?w3\<lparr>cache := ?c\<lparr>tick := 2\<rparr>\<rparr>) 0 (Acquiring 0 (1000 * second)))"
    by (rule tc_step.clock) (use assms in \<open>simp_all add: tc_start_def now_def\<close>)
  ultimately have "tc_reachable E acq ex_cx (goto (?w3\<lparr>cache := ?c\<lparr>tick := 2\<rparr>\<rparr>) 0 (Acquiring 0 (1000 * second)))"
    by (rule tc_reachable.more)
  then show ?thesis by (simp add: ex_led_def tc_start_def)
qed

lemma ex_leading:
  "tc_reachable ex_env acq ex_cx ex_led" "leads (phases ex_led 0) = Some 0" "acquiring ex_led = Some 0"
  by (rule ex_led_steps, simp) (simp_all add: ex_led_def)

text \<open>Goroutine 1 arrives and waits for that flight.\<close>

definition ex_waited :: machine where
  "ex_waited = goto (ex_led\<lparr>cache := (cache ex_led)\<lparr>tick := 3\<rparr>\<rparr>) 1 (Waiting 0)"

lemma ex_waiting:
  assumes "env_now E 1 = 1000 * second"
  shows "tc_reachable E acq ex_cx ex_waited"
proof -
  let ?w1 = "goto ex_led 1 Calling"
  let ?w2 = "goto (?w1\<lparr>cache := cache ?w1\<lparr>tick := Suc (tick (cache ?w1))\<rparr>\<rparr>) 1 Entering"
  have "tc_reachable E acq ex_cx ?w1"
    by (rule tc_reachable.more [OF ex_led_steps [OF assms]]) (rule tc_step.call, simp add: ex_led_def)
  then have "tc_reachable E acq ex_cx ?w2"
    by (rule tc_reachable.more) (rule tc_step.enter, simp_all)
  moreover have "tc_step E acq ex_cx ?w2 (goto (?w2\<lparr>cache := clear_token (cache ?w2)\<rparr>) 1 (Waiting 0))"
    by (rule tc_step.wait) (simp_all add: ex_led_def token_fresh_def)
  ultimately have "tc_reachable E acq ex_cx (goto (?w2\<lparr>cache := clear_token (cache ?w2)\<rparr>) 1 (Waiting 0))"
    by (rule tc_reachable.more)
  then show ?thesis
    by (simp add: ex_waited_def ex_led_def clear_token_def)
qed

text \<open>With the network down, goroutine 0 comes back without a token.\<close>

definition ex_fetched :: machine where
  "ex_fetched = goto (ex_led\<lparr>cache := snd (acquire ex_down ex_provider (1000 * second) (cache ex_led))\<rparr>) 0
     (Fetched 0 (1000 * second) (Inl ErrUnavailable))"

lemma ex_failed:
  "tc_reachable ex_down (acquire ex_down ex_provider) ex_cx ex_fetched"
  "phases ex_fetched 0 = Fetched 0 (1000 * second) (Inl ErrUnavailable)"
proof -
  obtain s' where A: "acquire ex_down ex_provider (1000 * second) (cache ex_led) = (Inl ErrUnavailable, s')"
    using ex_down_acquire by blast
  have "tc_reachable ex_down (acquire ex_down ex_provider) ex_cx ex_led"
    by (rule ex_led_steps) (simp add: ex_down_def)
  moreover have "tc_step ex_down (acquire ex_down ex_provider) ex_cx ex_led ex_fetched"
    unfolding ex_fetched_def A snd_conv by (rule tc_step.fetch [where acq = "acquire ex_down ex_provider", OF _ A]) (simp add: ex_led_def)
  ultimately show "tc_reachable ex_down (acquire ex_down ex_provider) ex_cx ex_fetched"
    by (rule tc_reachable.more)
  show "phases ex_fetched 0 = Fetched 0 (1000 * second) (Inl ErrUnavailable)" by (simp add: ex_fetched_def)
qed

lemma three_steps: "r a b \<Longrightarrow> r b c \<Longrightarrow> r c d \<Longrightarrow> r\<^sup>*\<^sup>* a d"
  by (meson converse_rtranclp_into_rtranclp rtranclp.rtrancl_refl)

text \<open>From there the flight lands, both goroutines return, and nobody waits any more.\<close>

lemma ex_landing:
  "\<exists>w. (tc_step ex_down (acquire ex_down ex_provider) ex_cx)\<^sup>*\<^sup>* ex_waited w \<and> settled w"
proof -
  let ?acq = "acquire ex_down ex_provider"
  obtain s where A: "?acq (1000 * second) (cache ex_waited) = (Inl ErrUnavailable, s)"
    using ex_down_acquire by blast
  let ?w1 = "goto (ex_waited\<lparr>cache := s\<rparr>) 0 (Fetched 0 (1000 * second) (Inl ErrUnavailable))"
  let ?w2 = "goto (?w1\<lparr>cache := s, acquiring := None,
      flights := (flights ?w1)[0 := Landed (flight_error (Inl ErrUnavailable))]\<rparr>) 0 (Returned (Inl ErrUnavailable))"
  let ?w3 = "goto ?w2 1 (Returned (Inl ErrUnavailable))"
  have store: "store_token ex_down (1000 * second) (Inl ErrUnavailable) (cache ?w1) = (Inl ErrUnavailable, s)"
    by (simp add: store_token_def)
  have s1: "tc_step ex_down ?acq ex_cx ex_waited ?w1"
    by (rule tc_step.fetch [where acq = ?acq, OF _ A]) (simp add: ex_waited_def ex_led_def)
  have s2: "tc_step ex_down ?acq ex_cx ?w1 ?w2"
    by (rule tc_step.publish [OF _ store]) simp
  have s3: "tc_step ex_down ?acq ex_cx ?w2 ?w3"
    by (rule tc_step.wake_failed [where f = 0]) (simp_all add: ex_waited_def ex_led_def flight_error_def)
  have "(tc_step ex_down ?acq ex_cx)\<^sup>*\<^sup>* ex_waited ?w3"
    by (rule three_steps [where r = "tc_step ex_down ?acq ex_cx", OF s1 s2 s3])
  moreover have "leads (phases ?w3 t) = None \<and> (\<forall>f. phases ?w3 t \<noteq> Waiting f)" for t
    by (cases "t = 0"; cases "t = 1") (simp_all add: ex_waited_def ex_led_def)
  then have "settled ?w3" unfolding settled_def by blast
  ultimately show ?thesis by blast
qed

lemma ex_fair_run:
  "\<exists>run i. tc_run ex_down (acquire ex_down ex_provider) ex_cx run \<and> fair run \<and> phases (run i) 1 = Waiting 0"
proof -
  obtain w where w: "(tc_step ex_down (acquire ex_down ex_provider) ex_cx)\<^sup>*\<^sup>* ex_waited w" "settled w"
    using ex_landing by blast
  have "tc_reachable ex_down (acquire ex_down ex_provider) ex_cx ex_waited"
    by (rule ex_waiting) (simp add: ex_down_def)
  from on_fair_run [OF this w] obtain run i where r: "tc_run ex_down (acquire ex_down ex_provider) ex_cx run" "fair run" "run i = ex_waited"
    by blast
  have "phases (run i) 1 = Waiting 0" unfolding r(3) ex_waited_def by simp
  with r(1,2) show ?thesis by blast
qed

section \<open>The configuration and its files\<close>

lemma ex_resource: "url_parse ''https://r'' = Some (empty_url\<lparr>Scheme := ''https'', Host := ''r''\<rparr>)"
  by (simp add: url_eval Let_def)

lemma ex_endpoints_ok: "endpoints_ok ex_config"
  by (simp add: endpoints_ok_def ex_config_def ex_token_client_def ex_breg_def validEndpoint_def
      validResource_def ex_endpoint ex_resource empty_url_def)

lemma ex_field: "validField ''uin''" "validField ''name''"
  by (simp_all add: validField_def valid_field_rune_def)

lemma ex_fields_ok: "fields_ok ex_config"
  by (simp add: fields_ok_def ex_config_def ex_breg_def ex_field claim_ok_def reservedClaim_def)

lemma ex_texts_ok: "texts_ok ex_config"
  by (simp add: texts_ok_def ex_config_def ex_breg_def ex_token_client_def validText_def route_ok_def
      contains_any_def validScopes_iff validScopeToken_def)

lemma ex_policy: "endpoints_ok ex_config \<and> bounds_ok ex_config \<and> fields_ok ex_config \<and> texts_ok ex_config
    \<and> demo_ok ex_config \<and> \<not> blank (PSUTSecretFile ex_config) \<and> \<not> blank (PrivateKeyFile (TokenClient ex_config))
    \<and> \<not> blank (StaticOTPFile (Demo ex_config))"
proof -
  have "bounds_ok ex_config" by (simp add: bounds_ok_def ex_config_def ex_token_client_def)
  moreover have "demo_ok ex_config" by (simp add: demo_ok_def ex_config_def ex_mailpit_def)
  moreover have "\<not> blank (PSUTSecretFile ex_config) \<and> \<not> blank (PrivateKeyFile (TokenClient ex_config))
    \<and> \<not> blank (StaticOTPFile (Demo ex_config))"
    by (simp add: ex_config_def ex_token_client_def)
  ultimately show ?thesis using ex_endpoints_ok ex_fields_ok ex_texts_ok by blast
qed

lemma ex_validated: "validate ex_config = Inr ()" "\<not> AllowInsecureHTTP (HTTP ex_config)"
proof -
  have "validField (SelectorField (BREG ex_config))"
    by (simp add: ex_config_def ex_breg_def ex_field)
  with ex_policy show "validate ex_config = Inr ()" by (intro validate_complete) simp_all
  show "\<not> AllowInsecureHTTP (HTTP ex_config)" by (simp add: ex_config_def)
qed

lemma ex_provider_validated: "validate (config ex_provider) = Inr ()"
  using ex_validated(1) by (simp add: ex_provider_def)

lemma ex_defaulted: "defaults ex_config = ex_config"
  by (simp add: defaults_def ex_config_def default_breg_def default_token_client_def default_http_def
      ex_breg_def ex_token_client_def)

definition ex_files :: "string \<Rightarrow> file_data" where
  "ex_files path = (if path = ''s'' then FileData (replicate 32 (CHR ''x'')) False
     else if path = ''k'' \<or> path = ''c'' then FileData ''pem'' False
     else if path = ''o'' then FileData ''42'' False else NoFile)"

definition ex_crypto :: crypto_lib where
  "ex_crypto = \<lparr>pem_decode = (\<lambda>_. Some (''der'', [])), parse_pkcs8 = (\<lambda>_. Some (ECDSAKey True 1 2 3)),
     parse_pkcs1 = (\<lambda>_. None), rsa_validate = (\<lambda>_. False), rsa_precompute = (\<lambda>_. (0, 0, 0)),
     p256_base_mult = (\<lambda>_. (0, 0))\<rparr>"

definition ex_yaml :: yaml_lib where
  "ex_yaml = \<lparr>yaml_unmarshal = (\<lambda>_. Some (YNode DocumentNode [] [YNode MappingNode [] []])),
     yaml_decode_strict = (\<lambda>_. Some ex_config), yaml_second_is_eof = (\<lambda>_. True)\<rparr>"

lemma ex_loaded: "LoadConfig ex_yaml ex_files ''c'' = Inr ex_config"
  by (simp add: LoadConfig_def readBounded_def ex_files_def ex_yaml_def hasTopLevelKey_def
      ex_defaulted ex_validated)

lemma ex_load_key: "loadKey ex_crypto ex_files ''k'' ''1'' = Some (key ex_provider)"
  by (simp add: loadKey_def readBounded_def ex_files_def ex_crypto_def pem_key_def check_key_def ex_provider_def)

lemma ex_new_verifier:
  assumes "choose_verifier ex_files ex_config supplied = Inr v"
  shows "New ex_crypto ex_files (\<lambda>_. True) supplied ex_config
    = Inr (ex_provider, v, \<lparr>ClientTimeout = 10 * second, FollowRedirects = False, RootFile = None\<rparr>)"
proof -
  have f: "PSUTSecretFile ex_config = ''s''" "PrivateKeyFile (TokenClient ex_config) = ''k''"
    "KeyID (TokenClient ex_config) = ''1''" "CAFile (HTTP ex_config) = []" "TimeoutSeconds (HTTP ex_config) = 10"
    by (simp_all add: ex_config_def ex_token_client_def)
  have "readBounded ex_files ''s'' 4096 = Inr (replicate 32 (CHR ''x''))"
    by (simp add: readBounded_def ex_files_def)
  then show ?thesis
    by (simp add: New_def new_with_def ex_defaulted ex_validated assms client_roots_def f ex_load_key)
      (simp add: ex_provider_def)
qed

lemma ex_new: "New ex_crypto ex_files (\<lambda>_. True) True ex_config
    = Inr (ex_provider, Supplied, \<lparr>ClientTimeout = 10 * second, FollowRedirects = False, RootFile = None\<rparr>)"
  by (rule ex_new_verifier) (simp add: choose_verifier_def)

definition ex_get_client :: "unit option \<Rightarrow> clientResolver" where
  "ex_get_client service cid = (if service \<noteq> None \<and> cid = ''cl'' then Inr \<lparr>ResponseClientID = ''cl'', RpID = ''rp''\<rparr>
     else Inl ErrClientNotFound)"

lemma ex_init: "\<exists>a. Init ex_yaml ex_crypto ex_files (\<lambda>_. True) (\<lambda>_. ''c'') ex_get_client (Some ()) = Inr (a, NoopAuditor)
    \<and> fst (snd (identity a)) = StaticVerifier ''42''"
proof -
  have demo: "mp_Enabled (Mailpit (Demo ex_config)) = False" "StaticOTPEnabled (Demo ex_config)"
    "StaticOTPFile (Demo ex_config) = ''o''"
    by (simp_all add: ex_config_def ex_mailpit_def)
  have "trim_space ''42'' = ''42''" by (rule trim_space_visible) auto
  then have "choose_verifier ex_files ex_config False = Inr (StaticVerifier ''42'')"
    by (simp add: choose_verifier_def demo readBounded_def ex_files_def)
  note ex_new_verifier [OF this]
  then show ?thesis by (simp add: Init_def LoadConfigFromEnv_def ex_loaded)
qed

section \<open>Attributes and a one-time password\<close>

lemma ex_attributes: "GetAttributes ex_env ex_provider (GoMap (context_map ex_context)) ex_binding (Some [''sub'']) ex_state
    = (Inr [(''sub'', JStr (psut ex_provider ex_context))], ex_state\<lparr>tick := 1\<rparr>)"
  by (simp add: GetAttributes_def ex_restored canon_members_def)

definition ex_otp :: OTPRequest where
  "ex_otp = \<lparr>otp_Identifier = ''7'', otp_IdentifierType = ''uin'', otp_Binding = ex_binding, otp_Channels = [''email'']\<rparr>"

lemma ex_otp_sent: "SendOTP ex_env ex_provider (staticVerifier ''42'') ex_otp () ex_state
    = (None, (), ex_state\<lparr>tick := 2\<rparr>)"
proof -
  have "validSubject ex_provider ''7'' ''uin''" "validBinding ex_binding"
    using ex_valid_request by (simp_all add: valid_request_def ex_request_def)
  then show ?thesis
    by (simp add: SendOTP_def ex_otp_def staticVerifier_def static_SendOTP_def) (simp add: ex_state_def)
qed

section \<open>Mail\<close>

lemma ex_mail_addresses: "validMailAddress (Sender ex_mailpit)" "validMailAddress (Recipient ex_mailpit)"
  by (simp_all add: validMailAddress_def ex_mailpit_def)

lemma ex_mail_sent:
  "\<exists>m' n'. mailpit_SendOTP ex_env ex_mailpit (\<lambda>_. None) ex_otp newMailpitVerifier 0 = (None, m', n')"
proof -
  have run: "smtp_run ex_env cs out n = (True, out @ cs, n + length cs)" for cs out n
    by (induction cs arbitrary: out n) (simp_all add: ex_env_def)
  have "env_code ex_env n = Some 42" "\<exists>sa. rand_read ex_env n 16 = Some sa" for n
    by (simp_all add: ex_env_def rand_read_def)
  then obtain code ch where P: "mailpit_prepare ex_env 1 = (Some (code, ch), 4)"
    using mailpit_prepareI [of ex_env 1] by fastforce
  have "validBinding ex_binding" "validText ''7''" "validText ''uin''"
    using ex_valid_request text_eval by (simp_all add: valid_request_def ex_request_def)
  then show ?thesis
    by (simp add: mailpit_SendOTP_def ex_otp_def mailpit_admit_def newMailpitVerifier_def mailpitMaxPending_def
        mailpit_send_def P [unfolded One_nat_def] mailpit_deliver_def run)
qed

definition ex_pending :: mailpitVerifier where
  "ex_pending = newMailpitVerifier\<lparr>pending := [(verify_key ex_request,
     \<lparr>digest = mailpitDigest ''s'' ''42'', salt = ''s'', expires = 1300 * second, attempts = 0\<rparr>)]\<rparr>"

lemma ex_pending_inv: "mailpit_inv ex_pending"
  by (simp add: mailpit_inv_def ex_pending_def newMailpitVerifier_def mailpitMaxPending_def mailpitMaxAttempts_def)

lemma ex_check: "fst (mailpit_check 0 (verify_key ex_request) ''42'' ex_pending)"
  by (simp add: mailpit_check_accepts ex_pending_def newMailpitVerifier_def second_def)

section \<open>The adapter\<close>

definition ex_adapter :: "(unit \<times> pstate) identityProvider authenticator" where
  "ex_adapter = \<lparr>identity = core_identity ex_env ex_provider (staticVerifier ''42''),
     clients = Some (\<lambda>cid. if cid = ''cl'' then Inr \<lparr>ResponseClientID = ''cl'', RpID = ''rp''\<rparr>
       else Inl ErrClientNotFound),
     identifierType = ''uin'', channels = [''email'']\<rparr>"

definition ex_metadata :: metadata where
  "ex_metadata = [(''initiator_query_client_id'', [''cl'']), (''provider_ext_TransactionID'', [''tx''])]"

lemma ex_adapter_identity: "identity ex_adapter = core_identity ex_env ex_provider (staticVerifier ''42'')"
  by (simp add: ex_adapter_def)

lemma ex_adapter_binding: "binding ex_adapter ex_metadata True = Inr ex_binding"
  by (simp add: binding_def ex_adapter_def ex_metadata_def header_def Let_def transaction_binding_def
      transactionKey_def ex_binding_def)

definition ex_mail_adapter :: "(mailpitVerifier \<times> pstate) identityProvider authenticator" where
  "ex_mail_adapter = \<lparr>identity = core_identity ex_env ex_provider (mailpit_verifier ex_env ex_mailpit),
     clients = clients ex_adapter, identifierType = ''uin'', channels = [''email'']\<rparr>"

lemma ex_mail_adapter_identity:
  "identity ex_mail_adapter = core_identity ex_env ex_provider (mailpit_verifier ex_env ex_mailpit)"
  by (simp add: ex_mail_adapter_def)

lemma ex_metadata_transaction: "header ex_metadata transactionKey = [''tx'']"
  by (simp add: header_def ex_metadata_def transactionKey_def)

lemma ex_mail_binding: "binding ex_mail_adapter ex_metadata False = Inr ex_binding"
  by (simp add: binding_def ex_mail_adapter_def ex_adapter_def ex_metadata_def header_def Let_def
      transaction_binding_def transactionKey_def ex_binding_def)

lemma ex_adapter_sent:
  "\<exists>v' s'. AdapterSendOTP ex_mail_adapter None [(''username'', AnyString ''7'')] (Some ex_metadata)
     (newMailpitVerifier, ex_state) = (Inr ''tx'', (v', s'))"
proof -
  have x: "call_ctx ex_env = (\<lambda>_. None)" by (rule ext) simp
  have r: "\<lparr>otp_Identifier = ''7'', otp_IdentifierType = ''uin'', otp_Binding = ex_binding\<lparr>TransactionID := ''tx''\<rparr>,
      otp_Channels = [''email'']\<rparr> = ex_otp"
    by (simp add: ex_otp_def ex_binding_def)
  obtain m' n' where M: "mailpit_SendOTP ex_env ex_mailpit (\<lambda>_. None) ex_otp newMailpitVerifier 0 = (None, m', n')"
    using ex_mail_sent by blast
  have "validSubject ex_provider ''7'' ''uin''" "validBinding ex_binding" "tick ex_state = 0"
    using ex_valid_request by (simp_all add: valid_request_def ex_request_def ex_state_def)
  then have S: "SendOTP ex_env ex_provider (mailpit_verifier ex_env ex_mailpit) ex_otp newMailpitVerifier ex_state
      = (None, m', ex_state\<lparr>tick := Suc n'\<rparr>)"
    by (simp add: SendOTP_def mailpit_verifier_def x M) (simp add: ex_otp_def)
  have "AdapterSendOTP ex_mail_adapter None [(''username'', AnyString ''7'')] (Some ex_metadata)
     (newMailpitVerifier, ex_state) = (Inr ''tx'', (m', ex_state\<lparr>tick := Suc n'\<rparr>))"
    using S r by (simp add: AdapterSendOTP_def string_value_def ex_mail_binding)
      (simp add: ex_mail_adapter_def core_identity_def core_SendOTP_def ex_binding_def)
  then show ?thesis by blast
qed

definition ex_consent :: "(unit, unit, unit, unit, unit) ConsentProvider" where
  "ex_consent = \<lparr>RecordConsent = (\<lambda>_. (None, Some \<lparr>Code = ''essential_consent_denied'', Details = ()\<rparr>)),
     ResolveConsent = (\<lambda>_ _. (None, None))\<rparr>"

section \<open>A module archive\<close>

definition ex_file :: zip_file where
  "ex_file = \<lparr>Name = ''m/a'', AttrDir = False, AttrSymlink = False, AttrExec = False,
     FirstOpen = Stream ''x'' False False, SecondOpen = Stream ''x'' False False\<rparr>"

definition ex_h1 :: string where
  "ex_h1 = h1 (manifest_line ''x'' ''m/a'')"

lemma ex_extracted:
  "extract_archive (\<lambda>_ _. True) (Some [ex_file]) ''m'' ex_h1 ''d''
    = (None, file_ops ''m'' ''d'' ex_file)" "file_ops ''m'' ''d'' ex_file \<noteq> []"
proof -
  have rel: "relative ''m'' ''m/a'' = ''a''" "under_prefix ''m'' ''m/a''"
    by (simp_all add: relative_def under_prefix_def)
  have loc: "is_local ''a''" by (simp add: is_local_def is_rooted_def)
  have v: "verify_files ''m'' [] [ex_file] = Inr (manifest_line ''x'' ''m/a'')"
    by (simp add: ex_file_def rel loc)
  have e: "extract_files (\<lambda>_ _. True) ''m'' ''d'' [ex_file] [] = (None, file_ops ''m'' ''d'' ex_file)"
    by (simp add: extract_file_def ex_file_def is_dir_def copy_stream_def file_ops_def target_of_def Let_def)
  show "extract_archive (\<lambda>_ _. True) (Some [ex_file]) ''m'' ex_h1 ''d'' = (None, file_ops ''m'' ''d'' ex_file)"
    using v e by (simp add: extract_archive_def ex_h1_def Let_def del: verify_files.simps extract_files.simps)
  show "file_ops ''m'' ''d'' ex_file \<noteq> []"
    by (simp add: file_ops_def ex_file_def is_dir_def Let_def)
qed

end
