(* ===== verification/Findings.thy ===== *)
theory Findings
  imports Example
begin

text \<open>
  Inputs the program accepts although what follows goes wrong: a base URL that swallows the
  records path, a request whose context can never be restored, a nil client service, and
  bindings that are not UTF-8. Each is a fact about the definitions of the model.
\<close>

section \<open>Base URLs that end in a bare delimiter\<close>

text \<open>
  An empty query or fragment passes \<open>validEndpoint\<close>, but what the lookup appends to the base
  URL then lands in the query, which is overwritten, or in the fragment, which is not sent.
\<close>

lemma bare_query_accepted: "validEndpoint ''https://b?'' False"
  by (simp add: validEndpoint_def url_eval Let_def)

lemma bare_fragment_accepted: "validEndpoint ''https://b#'' False"
  by (simp add: validEndpoint_def url_eval Let_def)

lemma bare_query_target:
  "lookup_target (ex_breg\<lparr>BaseURL := ''https://b?''\<rparr>) = ''https://b?/v1/records/p:lookup''"
  by (simp add: lookup_target_def ex_breg_def trim_right_def url_eval)

lemma bare_query_url: "url_parse ''https://b?/v1/records/p:lookup''
    = Some (empty_url\<lparr>Scheme := ''https'', Host := ''b'', RawQuery := ''/v1/records/p:lookup''\<rparr>)"
  by (simp add: url_eval Let_def)

lemma bare_query_printed: "url_string (empty_url\<lparr>Scheme := ''https'', Host := ''b'', RawQuery := ''%24select=uin''\<rparr>)
    = ''https://b?%24select=uin''"
  by (simp add: url_string_def escaped_path_def url_authority_def url_eval)

lemma bare_query_printed_url: "url_parse ''https://b?%24select=uin''
    = Some (empty_url\<lparr>Scheme := ''https'', Host := ''b'', RawQuery := ''%24select=uin''\<rparr>)"
  by (simp add: url_eval Let_def)

lemma bare_query_swallows_path:
  "validEndpoint ''https://b?'' False \<and>
   lookup_request (ex_breg\<lparr>BaseURL := ''https://b?''\<rparr>) ''t'' ''7'' [''uin'']
     = Some (ex_http_request\<lparr>rq_url := ''https://b?%24select=uin''\<rparr>)"
proof -
  have "lookup_query (ex_breg\<lparr>BaseURL := ''https://b?''\<rparr>) [''uin''] = lookup_query ex_breg [''uin'']"
    "lookup_body (ex_breg\<lparr>BaseURL := ''https://b?''\<rparr>) ''7'' = lookup_body ex_breg ''7''"
    by (simp_all add: lookup_query_def lookup_body_def)
  then show ?thesis
    by (simp add: bare_query_accepted lookup_request_def bare_query_target bare_query_url ex_query
        bare_query_printed new_request_def bare_query_printed_url ex_http_request_def)
qed

section \<open>Contexts that cannot be restored\<close>

lemma marshal_string_lt: "length (marshal_string (replicate n (CHR ''<''))) = 6 * n + 2"
  by (induction n) (simp_all add: json_eval)

definition long_request :: ChallengeRequest where
  "long_request = ex_request\<lparr>cr_Identifier := replicate 4096 (CHR ''<''),
     cr_Binding := ex_binding\<lparr>ClientID := replicate 4096 (CHR ''<'')\<rparr>\<rparr>"

lemma long_text: "validText (replicate 4096 (CHR ''<''))"
proof -
  have "replicate 4096 (CHR ''<'') = CHR ''<'' # replicate 4095 (CHR ''<'')"
    by (simp add: numeral_eq_Suc)
  then show ?thesis by (simp add: validText_def)
qed

text \<open>
  A request of valid texts: its context is issued, but is always refused, because the escaped
  texts exceed the 32 KiB that restoration allows.
\<close>

lemma long_request_never_restored:
  "valid_request ex_provider long_request \<and>
   restore E P (GoMap (context_map (issued_context long_request t))) b s = (Inl ErrContextInvalid, s)"
proof -
  let ?a = "issued_context long_request t"
  have "32768 < length (marshal (JObj (context_map ?a)))"
    by (simp add: context_map_def issued_context_def long_request_def marshal_string_lt)
  then have "restore E P (GoMap (context_map ?a)) b s = (Inl ErrContextInvalid, s)"
    by (simp add: restore_def Let_def del: marshal.simps)
  moreover have "valid_request ex_provider long_request"
    using ex_valid_request long_text
    by (simp add: valid_request_def validSubject_def validBinding_def long_request_def ex_request_def)
  ultimately show ?thesis by simp
qed

section \<open>A nil client service\<close>

text \<open>
  \<open>binding\<close> refuses when the adapter has no clients, but \<open>Init\<close> stores the pointer it is given in
  an interface field: with a nil service the field is not nil, and the guard lets the request
  through to a call of the method on the nil pointer.
\<close>

lemma nil_service_is_called:
  assumes "Init y cl fs appends getenv getClient None = Inr (a, obs)"
    and "header m ''initiator_query_client_id'' = [cid]" and "cid \<noteq> []" and "getClient None cid = Inl e"
  shows "clients a \<noteq> None \<and> binding a m need
    = Inl (case e of ErrClientNotFound \<Rightarrow> ClientNotFoundError | OtherClientError \<Rightarrow> InternalServerError)"
proof -
  have "clients a = Some (getClient None)" by (rule Init_ok [OF assms(1)])
  then show ?thesis using binding_unresolved [of a "getClient None"] assms(2-4) by simp
qed

section \<open>Bindings that are not UTF-8\<close>

lemma bad_byte: "marshal_string [CHR 0xFF] = marshal_string [CHR 0xFE]"
  by (simp add: json_eval segs.simps decode_rune.simps lead_info_def
      rune_error_def bad_seg_def)

lemma subjects_collide_outside_utf8:
  "psut P (a\<lparr>ac_ClientID := [CHR 0xFF]\<rparr>) = psut P (a\<lparr>ac_ClientID := [CHR 0xFE]\<rparr>)"
  by (simp add: psut_def psut_tuple_def bad_byte)

end
