(* ===== verification/Spec2Isabelle.thy ===== *)
theory Spec2Isabelle
  imports Findings
begin

text \<open>
  The eSignet relay authenticator: an identity provider that checks a one-time code, looks the
  subject up in a registry (BREG) over HTTP, and releases consented attributes; an adapter that
  offers it to the eSignet host; and a build tool that extracts a pinned module archive. The
  development models all of the repository's Go code, function by function, and proves what
  makes it correct. The properties C1 to C40 below are the theorems to read first.

  \<^bold>\<open>How the parts interact.\<close> The host calls the adapter, which reads one client and one
  transaction from the request's metadata, asks the host's registry of clients for the relying
  party, and calls the provider with that binding. \<open>Authenticate\<close> asks the challenge verifier,
  then looks up the account-check fields of the subject with an access token, and answers with
  a pairwise subject identifier and a context, which the host keeps in its session and hands
  back to \<open>GetAttributes\<close>. The token comes from a cache that any number of goroutines share;
  it is filled by a signed client assertion. The Mailpit verifier mails codes and keeps their
  salted digests. Everything is configured by one YAML file.

  \<^bold>\<open>Theories and code.\<close>
  \<^item> \<open>Prelude\<close>, \<open>GoText\<close>, \<open>GoNet\<close>, \<open>GoJson\<close>, \<open>GoCrypto\<close>: the standard library the code uses.
    A Go string is a list of bytes (\<open>char list\<close>). UTF-8, trimming and decimal numbers;
    \<open>net/url\<close>, host and port, IP literals; the \<open>encoding/json\<close> printer, parser and field
    matching; SHA-256, HMAC, base64 and hexadecimal, all computed from their definitions.
  \<^item> \<open>Types\<close>: \<open>provider/types.go\<close>. The errors are a datatype, \<open>(T, error)\<close> is a sum.
  \<^item> \<open>Config\<close>: \<open>provider/config.go\<close> and the two address checks of \<open>mailpit.go\<close>. \<open>checks\<close> is the
    list of checks \<open>validate\<close> makes, in order, with the names it reports. \<open>Policy\<close>: what a
    configuration has to satisfy, written without the predicates of the code.
  \<^item> \<open>Keys\<close>: \<open>provider/keys.go\<close>, \<open>loadKey\<close> and \<open>assertion\<close>.
  \<^item> \<open>World\<close>: clock, contexts, randomness, HTTP and SMTP as functions of a logical time, and the
    state \<open>pstate\<close>: the two cache fields of \<open>Provider\<close>, the logical time and the requests sent.
  \<^item> \<open>Http\<close>: \<open>provider/http.go\<close> for one caller: \<open>request\<close>, \<open>acquire\<close>, \<open>accessToken\<close>,
    \<open>invalidate\<close>, \<open>lookup\<close>, \<open>decodeJSON\<close>.
  \<^item> \<open>TokenCache\<close>: \<open>accessToken\<close> and \<open>invalidate\<close> for any number of goroutines. \<open>machine\<close> has
    the cache, \<open>p.acquiring\<close>, the \<open>tokenFlight\<close>s made so far and where each goroutine is; the
    steps of \<open>tc_step\<close> are the critical sections, the reading of the clock after the first of
    them, and the blocking points. \<open>TokenRuns\<close>: infinite runs of these steps, and fairness.
  \<^item> \<open>Verifier\<close>: the \<open>ChallengeVerifier\<close> interface, its contract (locale \<open>challenge_verifier\<close>)
    and the static verifier of \<open>provider.go\<close>. \<open>Mailpit\<close>: \<open>provider/mailpit.go\<close>, first one call
    at a time, then the step relation \<open>mp_step\<close> for any number of calls.
  \<^item> \<open>Provider\<close>: \<open>provider/provider.go\<close>: \<open>New\<close>, \<open>Authenticate\<close>, \<open>SendOTP\<close>, \<open>SupportedClaims\<close>,
    \<open>GetAttributes\<close>, \<open>Subject\<close>, \<open>restore\<close>, \<open>psut\<close>.
  \<^item> \<open>BregAdapter\<close>: \<open>integration/overlay/internal/engine/breg\<close>, \<open>authenticator.go\<close> and
    \<open>consent.go\<close>; methods that clash with the provider's have the prefix \<open>Adapter\<close>. \<open>Login\<close>: the
    adapter, the provider and the Mailpit verifier put together. \<open>Init\<close> gets the host's client
    service and its method as arguments, and its result holds what \<open>New\<close> made.
  \<^item> \<open>ModuleArchive\<close>: \<open>integration/modulearchive/main.go\<close>; \<open>extract\<close> is \<open>extract_archive\<close>, the
    file system is a log of operations and an oracle for their outcome.
  \<^item> \<open>Example\<close>: a concrete deployment on which the witnesses evaluate the hypotheses.
    \<open>Findings\<close>: inputs the program accepts although what follows goes wrong.

  \<^bold>\<open>Interfaces.\<close> Three locales state what one part relies on in another, and each is interpreted
  on the model of the code: \<open>challenge_verifier\<close> by the static and the Mailpit verifier;
  \<open>token_client\<close>, what the shared cache needs of \<open>acquire\<close>; and \<open>identity_provider\<close>, what the
  adapter needs of the provider.

  \<^bold>\<open>What the groups of lemmas show.\<close> \<open>GoText\<close>, \<open>GoJson\<close>: decoding inverts encoding, so strings,
  numbers and values survive marshalling exactly when they are UTF-8 (\<open>sanitize\<close> otherwise);
  \<open>GoCrypto\<close>: lengths, alphabets and injectivity of the encodings. \<open>Config\<close>: acceptance is
  equivalent to the policy, check by check (\<open>Policy\<close>). \<open>Http\<close>: case rules for every outcome, the frame of each
  operation and the cache invariant \<open>cache_ok\<close>. \<open>TokenCache\<close>: the invariants of the step
  relation by rule induction; \<open>TokenRuns\<close>: in a fair run every flight lands and every waiter
  leaves, and fair runs exist. \<open>Mailpit\<close>: \<open>mailpit_inv\<close>, \<open>mp_inv\<close>,
  attempts and capacity. \<open>Provider\<close>: case rules for each operation, and the context's trip
  through the session. \<open>ModuleArchive\<close>: lexical paths stay inside, and the hashed text is
  injective.

  \<^bold>\<open>Bounds and fuel.\<close> Only the JSON parser has fuel, \<open>2 * length + 2\<close>: each call consumes a byte
  or ends the value, and \<open>parse_fuel\<close> in \<open>GoJson\<close> shows that more fuel changes nothing. \<open>max_nesting\<close> is the depth
  of 10000 of \<open>encoding/json\<close>. All other recursion is structural or ends by a measure. Integers
  are mathematical where the code only compares or adds bounded values; JSON integers are
  checked against 64 bits when they are decoded. Fairness (\<open>fair\<close>) is a hypothesis of C16 only: a
  goroutine that nothing in the code blocks is scheduled, and an acquisition ends, as the HTTP
  client has a timeout. Times are nanoseconds; where a theorem needs
  a clock that does not go back it says so (\<open>mono (env_now E)\<close>).

  \<^bold>\<open>Parameters.\<close> The YAML library, PEM and ASN.1 decoding, RSA validation, P-256 scalar
  multiplication, the signatures, the zip reader, the certificate pool, the host's client
  registry and the wrapped consent provider are arguments of the definitions that use them.

  \<^bold>\<open>Not modelled.\<close> The transport settings of \<open>http.Client\<close> beyond timeout, redirects and roots;
  the text printed by \<open>main\<close>; the erasure of buffers with \<open>clear\<close>, except where it empties the
  cache; the closing of connections and files that has no effect a caller sees; the flow graph
  in \<open>flow-breg-otp.yaml\<close> and the patches, which are data for code outside the repository.
  A float64 in a context map is the integer it was decoded from, which is exact below \<open>2^53\<close>; the
  theorems about a context that was issued and restored (C3, C4) assume times below that. \<open>sort.Slice\<close> is unstable, but entries with equal names are
  refused before the order could matter. An acquisition is one step of \<open>tc_step\<close>: it holds no
  lock and reads nothing of the cache. A context map is a list of members in any order and with
  any repetitions, of which a Go map, which \<open>json.Marshal\<close> prints sorted, is a case.
\<close>

text \<open>C1. A successful authentication means all of this: the request was well formed, the verifier
  accepted the challenge and its context was still live, the registry answered 200 to a lookup
  of exactly this identifier and the account-check fields, the record holds every one of them
  and agrees on the selector, and the result is the subject identifier and the context of
  this request at that time.\<close>

theorem authenticate_success:
  assumes "Authenticate E P cv r v s = (Inr res, v', s')"
  shows "valid_request P r \<and> env_ctx E (tick s) = None \<and> (\<exists>n t rq raw data before.
      Verify cv (call_ctx E) r v (Suc (tick s)) = (None, v', n) \<and> call_ctx E n = None \<and> Suc n < tick s' - 2
      \<and> token s' \<noteq> [] \<and> lookup_request (BREG (config P)) (token s') (cr_Identifier r)
          (AccountCheckFields (BREG (config P))) = Some rq
      \<and> sent s' = before @ [rq] \<and> env_http E (tick s' - 2) rq = HttpResponse 200 raw False
      \<and> decodeJSON lookup_member None raw = Some (Some data)
      \<and> account_ok (config P) (cr_Identifier r) data \<and> t = env_now E (tick s' - 1)
      \<and> res = \<lparr>ar_Subject = psut P (issued_context r t),
                ar_Context = GoMap (context_map (clean_context (issued_context r t)))\<rparr>)"
proof -
  obtain n data s1 where A: "Verify cv (call_ctx E) r v (Suc (tick s)) = (None, v', n)" "call_ctx E n = None"
    "lookup E P (cr_Identifier r) (AccountCheckFields (BREG (config P))) (s\<lparr>tick := Suc n\<rparr>) = (Inr data, s1)"
    "account_ok (config P) (cr_Identifier r) data" "s' = s1\<lparr>tick := Suc (tick s1)\<rparr>"
    "res = \<lparr>ar_Subject = psut P (issued_context r (env_now E (tick s1))),
         ar_Context = GoMap (context_map (clean_context (issued_context r (env_now E (tick s1)))))\<rparr>"
    using Authenticate_ok(3) [OF assms] by blast
  obtain rq raw before where L: "token s1 \<noteq> []" "lookup_request (BREG (config P)) (token s1) (cr_Identifier r)
      (AccountCheckFields (BREG (config P))) = Some rq"
    "sent s1 = before @ [rq]" "env_http E (tick s1 - 1) rq = HttpResponse 200 raw False"
    "decodeJSON lookup_member None raw = Some (Some data)" "Suc n < tick s1 - 1"
    using lookup_ok [OF A(3)] by auto
  have "sent s' = before @ [rq]" "token s' = token s1" "tick s' - 1 = tick s1" "tick s' - 2 = tick s1 - 1"
    using A(5) L(3) by simp_all
  with A L Authenticate_ok(1,2) [OF assms] show ?thesis
    by (intro conjI exI [of _ n] exI [of _ "env_now E (tick s1)"] exI [of _ rq] exI [of _ raw] exI [of _ data]
        exI [of _ before]) simp_all
qed

theorem authenticate_success_witness:
  "lookup_request (BREG (config ex_provider)) ''t'' ''7'' [''uin''] = Some ex_http_request
    \<and> (\<exists>raw. env_http ex_env 5 ex_http_request = HttpResponse 200 raw False)"
proof -
  have "AccountCheckFields (BREG (config ex_provider)) = [''uin'']" "cr_Identifier ex_request = ''7''"
    "token (ex_looked_up 7) = ''t''" "sent (ex_looked_up 7) = [ex_http_request]" "tick (ex_looked_up 7) = 7"
    by (simp_all add: ex_provider_def ex_config_def ex_breg_def ex_request_def ex_looked_up_def ex_state_def)
  with authenticate_success [OF ex_authenticated] show ?thesis by auto
qed

text \<open>C2. When the verifier returns an error the registry is never asked: nothing is sent, the
  token cache is untouched, and the caller sees a challenge failure, or unavailability when
  the context ended or the error is a context error.\<close>

theorem authenticate_rejected:
  assumes "valid_request P r" and "env_ctx E (tick s) = None"
    and "Verify cv (call_ctx E) r v (Suc (tick s)) = (Some e, v', n)"
  shows "Authenticate E P cv r v s = (Inl (if call_ctx E n \<noteq> None \<or> (\<exists>c. e = CtxErr c)
      then ErrUnavailable else ErrChallengeFailed), v', s\<lparr>tick := Suc n\<rparr>)"
proof -
  have "is_ctx_error (Some e) \<longleftrightarrow> (\<exists>c. e = CtxErr c)" by (cases e) (simp_all add: is_ctx_error_def)
  then show ?thesis using assms by (auto simp: Authenticate_def ctx_done_def Let_def)
qed

theorem authenticate_rejected_witness:
  "Authenticate ex_env ex_provider (staticVerifier ''43'') ex_request () ex_state
     = (Inl ErrChallengeFailed, (), ex_state\<lparr>tick := 3\<rparr>)"
  using authenticate_rejected [OF ex_valid_request, of ex_env ex_state "staticVerifier ''43''" "()"
      "ProviderErr ErrChallengeFailed" "()" 2]
  by (simp add: ex_state_def staticVerifier_def static_Verify_def ex_request_def)

text \<open>C3. The context of a successful authentication, marshalled into the session and restored
  under the same binding, gives back the same subject identifier for five minutes: before the
  time of issue it is invalid, from five minutes on it is expired. This holds for a context
  whose texts are UTF-8 and whose JSON is at most 32 KiB, the limit \<open>restore\<close> sets, and for times
  after 1970 and below \<open>2^53\<close> seconds, which the floating-point numbers of the session map hold
  exactly; the call is not cancelled.\<close>

theorem authenticate_then_subject:
  assumes "Authenticate E P cv r v s = (Inr res, v', s')"
    and "t = unix (env_now E (tick s' - 1))" and "0 < t" and "t + 300 < 2 ^ 53"
    and "valid_context_text (issued_context r (env_now E (tick s' - 1)))"
    and "context_size (issued_context r (env_now E (tick s' - 1))) \<le> 32 * 1024"
    and "env_ctx E2 (tick s2) = None" and "u = unix (env_now E2 (Suc (tick s2)))"
  shows "fst (Subject E2 P (ar_Context res) (cr_Binding r) s2) =
    (if u < t then Inl ErrContextInvalid else if t + 300 \<le> u then Inl ErrContextExpired
     else Inr (ar_Subject res))"
proof -
  obtain s1 where A: "s' = s1\<lparr>tick := Suc (tick s1)\<rparr>"
    "res = \<lparr>ar_Subject = psut P (issued_context r (env_now E (tick s1))),
         ar_Context = GoMap (context_map (clean_context (issued_context r (env_now E (tick s1)))))\<rparr>"
    using Authenticate_ok(3) [OF assms(1)] by blast
  have "t + 300 < 2 ^ 63" using assms(4) by simp
  then have R: "restore E2 P (ar_Context res) (cr_Binding r) (s2\<lparr>tick := Suc (tick s2)\<rparr>)
      = (if u < t then Inl ErrContextInvalid else if t + 300 \<le> u then Inl ErrContextExpired
         else Inr (issued_context r (env_now E (tick s1))), s2\<lparr>tick := Suc (Suc (tick s2))\<rparr>)"
    using restore_issued [OF Authenticate_ok(1) [OF assms(1)], of "env_now E (tick s1)" E2 "s2\<lparr>tick := Suc (tick s2)\<rparr>"]
      assms(2,3,5,6,8) A by simp
  show ?thesis using assms(7) R A(2) by (simp add: Subject_def ctx_done_def)
qed

theorem authenticate_then_subject_witness:
  "fst (Subject ex_env ex_provider (ar_Context ex_result) (cr_Binding ex_request) ex_state)
     = Inr (psut ex_provider ex_context)"
proof -
  have "fst (Subject ex_env ex_provider (ar_Context ex_result) (cr_Binding ex_request) ex_state)
      = (if 1000 < (1000 :: int) then Inl ErrContextInvalid
         else if 1000 + 300 \<le> (1000 :: int) then Inl ErrContextExpired else Inr (ar_Subject ex_result))"
    by (rule authenticate_then_subject [OF ex_authenticated])
      (simp_all add: ex_context_def [symmetric] ex_context_text ex_context_small)
  then show ?thesis by (simp add: ex_result_def)
qed

text \<open>C4. An issued context whose texts are UTF-8 can be used under no other binding: with another
  client, relying party or transaction it does not restore, \<open>Subject\<close> and \<open>GetAttributes\<close> fail
  as invalid, nothing is sent and the token cache is left alone, whatever the time of use. (The
  time of issue is after 1970 and below \<open>2^53\<close> seconds, where the session map holds it exactly;
  texts that are not UTF-8 are stored with replacement characters.)\<close>

theorem context_bound_to_transaction:
  assumes "Authenticate E P cv r v s = (Inr res, v', s')"
    and "valid_context_text (issued_context r (env_now E (tick s' - 1)))"
    and "0 < unix (env_now E (tick s' - 1))" and "unix (env_now E (tick s' - 1)) + 300 < 2 ^ 53"
    and "b \<noteq> cr_Binding r"
  shows "restore E2 P (ar_Context res) b s2 = (Inl ErrContextInvalid, s2)
    \<and> Subject E2 P (ar_Context res) b s2
        = (Inl (if env_ctx E2 (tick s2) = None then ErrContextInvalid else ErrUnavailable), s2\<lparr>tick := Suc (tick s2)\<rparr>)
    \<and> GetAttributes E2 P (ar_Context res) b approved s2
        = (Inl (if approved = None then ErrInvalidRequest else ErrContextInvalid), s2)"
proof -
  obtain s1 where A: "s' = s1\<lparr>tick := Suc (tick s1)\<rparr>"
    "res = \<lparr>ar_Subject = psut P (issued_context r (env_now E (tick s1))),
         ar_Context = GoMap (context_map (clean_context (issued_context r (env_now E (tick s1)))))\<rparr>"
    using Authenticate_ok(3) [OF assms(1)] by blast
  let ?a = "issued_context r (env_now E (tick s1))"
  have t: "tick s' - 1 = tick s1" using A(1) by simp
  have "ac_IssuedAt ?a = unix (env_now E (tick s1))" "ac_Version ?a = 1"
    by (simp_all add: issued_context_def)
  then have "context_ints ?a"
    using assms(3,4) issued_context_expiry [of r "env_now E (tick s1)"] unfolding t
    by (simp add: context_ints_def) (simp add: int64_def)
  then have "decode_context (marshal (JObj (context_map ?a))) = Some ?a"
    using decode_context_map [of ?a] clean_context_valid assms(2) t by simp
  moreover have "\<not> context_bound P ?a b"
    using assms(5) by (cases b; cases "cr_Binding r") (auto simp: context_bound_def issued_context_def)
  ultimately have R: "restore E2 P (ar_Context res) b w = (Inl ErrContextInvalid, w)" for w
    using A(2) clean_context_valid assms(2) t by (simp add: restore_def Let_def)
  show ?thesis
    by (cases approved) (simp_all add: R Subject_def GetAttributes_def ctx_done_def)
qed

theorem context_bound_to_transaction_witness:
  "restore ex_env ex_provider (ar_Context ex_result) (ex_binding\<lparr>TransactionID := ''other''\<rparr>) ex_state
     = (Inl ErrContextInvalid, ex_state)
   \<and> fst (GetAttributes ex_env ex_provider (ar_Context ex_result) (ex_binding\<lparr>TransactionID := ''other''\<rparr>)
       (Some [''name'']) ex_state) = Inl ErrContextInvalid"
  using context_bound_to_transaction [OF ex_authenticated, of "ex_binding\<lparr>TransactionID := ''other''\<rparr>" ex_env ex_state
      "Some [''name'']"] ex_context_text
  by (simp add: ex_context_def [symmetric]) (simp add: ex_request_def ex_binding_def)

text \<open>C5. Whatever map a caller hands over, a context that restores is version 1, for a subject of
  the configured type, bound to the caller's binding, issued in the past, not expired, and
  valid for at most 300 seconds from its issue; restoring sends nothing and leaves the token cache alone.\<close>

theorem restore_sound:
  assumes "restore E P state b s = (Inr a, s')"
  shows "context_bound P a b \<and> validBinding b
    \<and> 0 < ac_IssuedAt a \<and> ac_IssuedAt a \<le> unix (env_now E (tick s))
    \<and> unix (env_now E (tick s)) < ac_ExpiresAt a \<and> ac_ExpiresAt a \<le> unix (env_now E (tick s)) + 300
    \<and> ac_ExpiresAt a - ac_IssuedAt a \<le> 300
    \<and> s' = s\<lparr>tick := Suc (tick s)\<rparr>"
  using restore_ok(2-8) [OF assms] by simp

theorem restore_sound_witness:
  "context_bound ex_provider ex_context ex_binding \<and> 1000 < ac_ExpiresAt ex_context"
  using restore_sound [OF ex_restored] by simp

text \<open>C6. Released attributes are minimal: every one was approved and is a supported claim, and is
  either the subject identifier or the value the registry returned, in this call, for the
  provisioned field the claim map names. When no provisioned field is needed the registry is
  not asked.\<close>

theorem attributes_minimal:
  assumes "GetAttributes E P state b (Some claims) s = (Inr res, s')"
  shows "\<exists>a s1 names data. restore E P state b s = (Inr a, s1) \<and> distinct names
    \<and> set names = {src. src \<noteq> ''$psut'' \<and> src \<in> set (ProvisionedFields (BREG (config P)))
         \<and> (\<exists>claim \<in> set claims. map_of (ClaimMap (config P)) claim = Some src)}
    \<and> (if names = [] then data = [] \<and> s' = s1 else lookup E P (ac_Identifier a) names s1 = (Inr data, s'))
    \<and> (\<forall>k v. map_of res k = Some v \<longleftrightarrow> k \<in> set claims \<and> (\<exists>src. map_of (ClaimMap (config P)) k = Some src
         \<and> (if src = ''$psut'' then v = JStr (psut P a) else src \<in> set names \<and> map_of data src = Some v)))
    \<and> dom (map_of res) \<subseteq> set (SupportedClaims P)"
  using assms
proof (cases rule: GetAttributes_cases)
  case (ok cs a s1 data)
  let ?names = "needed_fields (config P) claims []"
  have v: "map_of res k = (if k \<in> set claims then claim_value (config P) ?names data (psut P a) k else None)" for k
    using ok by (simp add: claim_values_map)
  have iff: "map_of res k = Some w \<longleftrightarrow> k \<in> set claims \<and> (\<exists>src. map_of (ClaimMap (config P)) k = Some src
         \<and> (if src = ''$psut'' then w = JStr (psut P a) else src \<in> set ?names \<and> map_of data src = Some w))" for k w
    by (cases "map_of (ClaimMap (config P)) k") (auto simp: v claim_value_def)
  have supported: "dom (map_of res) \<subseteq> set (SupportedClaims P)"
    using claim_value_supported [of P claims data "psut P a"] by (auto simp: v dom_def split: if_splits)
  have names: "distinct ?names"
    "set ?names = {src. src \<noteq> ''$psut'' \<and> src \<in> set (ProvisionedFields (BREG (config P)))
         \<and> (\<exists>claim \<in> set claims. map_of (ClaimMap (config P)) claim = Some src)}"
    by (simp_all add: needed_fields_distinct needed_fields_set)
  have "if ?names = [] then data = [] \<and> s' = s1 else lookup E P (ac_Identifier a) ?names s1 = (Inr data, s')"
    using ok(1,3) by simp
  with ok(2) iff supported names show ?thesis
    by (intro exI [of _ a] exI [of _ s1] exI [of _ ?names] exI [of _ data]) simp
qed simp_all

theorem attributes_minimal_witness:
  "\<exists>a s1. restore ex_env ex_provider (GoMap (context_map ex_context)) ex_binding ex_state = (Inr a, s1)"
  using attributes_minimal [OF ex_attributes] by blast

text \<open>C7. Whatever the outcome, asking for attributes sends at most one token request and then at
  most one lookup, of the subject of the restored context and of exactly the provisioned
  fields the approved claims need.\<close>

theorem attributes_traffic:
  assumes "GetAttributes E P state b approved s = (q, s')" and "cache_ok E P s" and "mono (env_now E)"
    and "1 \<le> TokenCacheMaxSeconds (TokenClient (config P))"
  shows "\<exists>ts ls. sent s' = sent s @ ts @ ls \<and> length ts \<le> 1 \<and> length ls \<le> 1
    \<and> list_all (is_token_request P) ts
    \<and> (\<forall>rq \<in> set ls. \<exists>a s1 claims. approved = Some claims \<and> restore E P state b s = (Inr a, s1)
         \<and> is_lookup_request P (ac_Identifier a) (needed_fields (config P) claims []) rq)
    \<and> cache_ok E P s'"
proof -
  have restored: "cache_ok E P s1 \<and> sent s1 = sent s" if "restore E P state b s = (z, s1)" for z s1
  proof -
    have s1: "s1 = snd (restore E P state b s)" using that by simp
    show ?thesis unfolding s1 by (simp add: cache_ok_later [OF assms(2,3)])
  qed
  have asked: "\<exists>ts ls. sent s' = sent s @ ts @ ls \<and> length ts \<le> 1 \<and> length ls \<le> 1
    \<and> list_all (is_token_request P) ts
    \<and> (\<forall>rq \<in> set ls. \<exists>a s1 claims. approved = Some claims \<and> restore E P state b s = (Inr a, s1)
         \<and> is_lookup_request P (ac_Identifier a) (needed_fields (config P) claims []) rq)
    \<and> cache_ok E P s'"
    if "approved = Some claims" "restore E P state b s = (Inr a, s1)"
      "lookup E P (ac_Identifier a) (needed_fields (config P) claims []) s1 = (z, s')" for claims a s1 z
  proof -
    have c: "cache_ok E P s1" "sent s1 = sent s" using restored [OF that(2)] by simp_all
    from lookup_frame [OF that(3) c(1) assms(3,4)] obtain ts ls where
      "sent s' = sent s1 @ ts @ ls" "length ts \<le> 1" "length ls \<le> 1" "list_all (is_token_request P) ts"
      "list_all (is_lookup_request P (ac_Identifier a) (needed_fields (config P) claims [])) ls" "cache_ok E P s'"
      by blast
    with c that(1,2) show ?thesis by (intro exI [of _ ts] exI [of _ ls]) (auto simp: list_all_iff)
  qed
  show ?thesis
    using assms(1)
  proof (cases rule: GetAttributes_cases)
    case (ok claims a s1 data)
    show ?thesis
    proof (cases "needed_fields (config P) claims [] = []")
      case True
      then have "s' = s1" using ok(3) by simp
      then show ?thesis using restored [OF ok(2)] by (intro exI [of _ "[]"]) simp
    next
      case False
      then show ?thesis using ok(1-3) asked [of claims a s1 "Inr data"] by simp
    qed
  next
    case (failed claims a s1 e)
    then show ?thesis using asked [of claims a s1 "Inl e"] by simp
  qed (use assms(2) restored in \<open>auto intro!: exI [of _ "[]"]\<close>)
qed

theorem attributes_traffic_witness:
  "\<exists>ts ls. sent (snd (GetAttributes ex_env ex_provider (GoMap (context_map ex_context)) ex_binding (Some [''name'']) ex_state))
       = ts @ ls \<and> length ts \<le> 1 \<and> length ls \<le> 1
     \<and> (\<forall>rq \<in> set ls. is_lookup_request ex_provider (ac_Identifier ex_context)
          (needed_fields (config ex_provider) [''name''] []) rq)"
proof -
  let ?names = "needed_fields (config ex_provider) [''name''] []"
  obtain q s' where G: "GetAttributes ex_env ex_provider (GoMap (context_map ex_context)) ex_binding (Some [''name'']) ex_state
      = (q, s')" by (cases "GetAttributes ex_env ex_provider (GoMap (context_map ex_context)) ex_binding (Some [''name'']) ex_state")
  have m: "mono (env_now ex_env)" by simp
  obtain ts ls where T: "sent s' = sent ex_state @ ts @ ls" "length ts \<le> 1" "length ls \<le> 1"
    and L: "\<forall>rq \<in> set ls. \<exists>a s1 claims. Some [''name''] = Some claims
      \<and> restore ex_env ex_provider (GoMap (context_map ex_context)) ex_binding ex_state = (Inr a, s1)
      \<and> is_lookup_request ex_provider (ac_Identifier a) (needed_fields (config ex_provider) claims []) rq"
    using attributes_traffic [OF G ex_cache_ok m ex_cap] by blast
  have "\<forall>rq \<in> set ls. is_lookup_request ex_provider (ac_Identifier ex_context) ?names rq"
  proof
    fix rq assume "rq \<in> set ls"
    with L obtain a s1 claims where "Some [''name''] = Some claims" "(Inr ex_context, ex_state\<lparr>tick := 1\<rparr>) = (Inr a, s1)"
      "is_lookup_request ex_provider (ac_Identifier a) (needed_fields (config ex_provider) claims []) rq"
      unfolding ex_restored by blast
    then show "is_lookup_request ex_provider (ac_Identifier ex_context) ?names rq" by simp
  qed
  moreover have "sent ex_state = []" by (simp add: ex_state_def)
  ultimately show ?thesis using T G by (intro exI [of _ ts] exI [of _ ls]) simp
qed

text \<open>C8. For contexts whose texts are UTF-8, as JSON has no other: the tuple that is hashed into a
  subject identifier is the same for two of them exactly when they agree on relying party, client, identifier type and identifier, so two contexts share
  their subject identifier exactly when HMAC-SHA256 under the provider's secret does not tell
  these two tuples apart. The subject identifier has always 43 characters, none a dot.\<close>

theorem psut_unambiguous:
  assumes "valid_context_text a" and "valid_context_text a'"
  shows "(psut_tuple a = psut_tuple a' \<longleftrightarrow>
      (ac_RelyingPartyID a, ac_ClientID a, ac_IdentifierType a, ac_Identifier a)
        = (ac_RelyingPartyID a', ac_ClientID a', ac_IdentifierType a', ac_Identifier a'))
    \<and> (psut P a = psut P a' \<longleftrightarrow> hmac_sha256 (secret P) (psut_tuple a) = hmac_sha256 (secret P) (psut_tuple a'))
    \<and> length (psut P a) = 43 \<and> CHR ''.'' \<notin> set (psut P a)"
proof -
  have "CHR ''.'' \<notin> set (psut P a)"
    using raw_url_base64_chars by (auto simp: psut_def dest: raw_url_base64_chars)
  then show ?thesis
    using psut_tuple_eq_iff [OF assms] psut_eq_iff [of P a a'] length_psut [of P a] by simp
qed

theorem psut_unambiguous_witness:
  "psut_tuple ex_context \<noteq> psut_tuple (ex_context\<lparr>ac_Identifier := ''8''\<rparr>)
    \<and> psut_tuple ex_context = psut_tuple (ex_context\<lparr>ac_TransactionID := ''u''\<rparr>)"
proof -
  have valid: "valid_context_text (ex_context\<lparr>ac_Identifier := ''8''\<rparr>)"
    "valid_context_text (ex_context\<lparr>ac_TransactionID := ''u''\<rparr>)"
    using ex_context_text by (simp_all add: valid_context_text_def valid_utf8_ascii)
  show ?thesis
    using psut_unambiguous [OF ex_context_text valid(1)] psut_unambiguous [OF ex_context_text valid(2)]
      ex_context_identifier by simp
qed

text \<open>C9. A lookup sends at most one token request and then at most one lookup request, with a
  token that is safe to put in a header; neither is ever replayed, and the token cache stays
  in order.\<close>

theorem lookup_traffic:
  assumes "lookup E P uid names s = (r, s')" and "cache_ok E P s" and "mono (env_now E)"
    and "1 \<le> TokenCacheMaxSeconds (TokenClient (config P))"
  shows "cache_ok E P s' \<and> (\<exists>ts ls. sent s' = sent s @ ts @ ls \<and> length ts \<le> 1 \<and> length ls \<le> 1
    \<and> list_all (is_token_request P) ts \<and> list_all (is_lookup_request P uid names) ls)"
  using lookup_frame [OF assms] by blast

theorem lookup_traffic_witness: "cache_ok ex_env ex_provider (ex_looked_up 3)"
  using lookup_traffic [OF ex_lookup [of 0], unfolded ex_state_at_0, OF ex_cache_ok _ ex_cap] by simp

text \<open>C10. A lookup fails with ErrInvalidRequest exactly when no field is asked for; the subject is
  denied only when the registry itself answered the lookup with a status other than 200 and
  one of its two not-found codes; everything else is unavailability.\<close>

theorem lookup_classified:
  assumes "lookup E P uid names s = (Inl e, s')"
  shows "e \<in> {ErrInvalidRequest, ErrSubjectDenied, ErrUnavailable}
    \<and> (e = ErrInvalidRequest \<longleftrightarrow> names = [])
    \<and> (e = ErrSubjectDenied \<longrightarrow> (\<exists>tok s1 rq status raw. accessToken E P s = (Inr tok, s1)
        \<and> lookup_request (BREG (config P)) tok uid names = Some rq \<and> sent s' = sent s1 @ [rq]
        \<and> env_http E (tick s1) rq = HttpResponse status raw False \<and> status \<noteq> 200
        \<and> decodeJSON problem_member [] raw \<in> {Some ''lookup.unresolved'', Some ''resource.not_found''}))"
  using lookup_errors [OF assms] lookup_denied [of E P uid names s s'] assms by blast

theorem lookup_classified_witness:
  "\<exists>e s'. lookup ex_env ex_provider ''7'' [] ex_state = (Inl e, s') \<and> e = ErrInvalidRequest"
proof -
  have "lookup ex_env ex_provider ''7'' [] ex_state = (Inl ErrInvalidRequest, ex_state)" by (simp add: lookup_def)
  with lookup_classified [OF this] show ?thesis by blast
qed

text \<open>C11. A lookup the registry refuses with the code authentication.refused fails as unavailable and is
  not repeated; the provider forgets the token it was sent with, so the next access token is
  acquired anew. A different token that was put in the cache meanwhile stays.\<close>

theorem refused_token_dropped:
  assumes "accessToken E P s = (Inr tok, s1)" and "names \<noteq> []"
    and "lookup_request (BREG (config P)) tok uid names = Some rq"
    and "env_http E (tick s1) rq = HttpResponse status raw False"
    and "length raw \<le> nat (MaxResponseBytes (HTTP (config P)))" and "status \<noteq> 200"
    and "decodeJSON problem_member [] raw = Some ''authentication.refused''"
  shows "\<exists>s'. lookup E P uid names s = (Inl ErrUnavailable, s') \<and> sent s' = sent s1 @ [rq] \<and> token s' = []
    \<and> (env_ctx E (tick s') = None \<longrightarrow> accessToken E P s' =
         (case acquire E P (env_now E (tick s' + 1)) (s'\<lparr>tick := tick s' + 2\<rparr>) of
            (r, s4) \<Rightarrow> store_token E (env_now E (tick s' + 1)) r s4))
    \<and> (\<forall>w. token w \<noteq> tok \<longrightarrow> invalidate tok w = w)"
proof -
  let ?s2 = "s1\<lparr>tick := Suc (tick s1), sent := sent s1 @ [rq]\<rparr>"
  have "request E (config P) rq s1 = (Inr (status, raw), ?s2)"
    using assms(4,5) by (simp add: request_def Let_def)
  then have "lookup E P uid names s = (Inl ErrUnavailable, invalidate tok ?s2)"
    using assms by (simp add: lookup_def lookup_answer_def classify_problem_def)
  moreover have "token s1 = tok" by (rule accessToken_ok(1) [OF assms(1)])
  then have "token (invalidate tok ?s2) = []" "sent (invalidate tok ?s2) = sent s1 @ [rq]"
    by (simp_all add: invalidate_def)
  ultimately obtain s' where "lookup E P uid names s = (Inl ErrUnavailable, s')" "token s' = []"
    "sent s' = sent s1 @ [rq]" by blast
  then show ?thesis by (intro exI [of _ s'] conjI impI accessToken_empty) (simp_all add: invalidate_def)
qed

theorem refused_token_dropped_witness:
  "\<exists>s'. lookup ex_refusing ex_provider ''7'' [''uin''] ex_state = (Inl ErrUnavailable, s')
     \<and> sent s' = [ex_http_request] \<and> token s' = []"
proof -
  have breg: "BREG (config ex_provider) = ex_breg" "MaxResponseBytes (HTTP (config ex_provider)) = 1048576"
    by (simp_all add: ex_provider_def ex_config_def)
  have "length ex_refusal \<le> 1048576" by (simp add: ex_refusal_def json_eval)
  then have "\<exists>s'. lookup ex_refusing ex_provider ''7'' [''uin''] ex_state = (Inl ErrUnavailable, s')
     \<and> sent s' = sent (ex_state\<lparr>tick := 2\<rparr>) @ [ex_http_request] \<and> token s' = []"
    using refused_token_dropped [OF ex_refusing_access, of "[''uin'']" "''7''" ex_http_request 401 ex_refusal]
      ex_lookup_request ex_refusal_code by (auto simp: breg ex_refusing_def)
  then show ?thesis by (simp add: ex_state_def)
qed

text \<open>C12. A token \<open>accessToken\<close> returns is the cached one, is visible ASCII of at most 64 KiB, was
  live at an instant of the call, and expires no later than the configured maximum from the
  end of the call; getting it took at most one token request. The cache invariant this rests
  on holds again afterwards.\<close>

theorem token_live_and_sendable:
  assumes "accessToken E P s = (Inr tok, s')" and "cache_ok E P s" and "mono (env_now E)"
    and "1 \<le> TokenCacheMaxSeconds (TokenClient (config P))"
  shows "token s' = tok \<and> token_text tok \<and> cache_ok E P s'
    \<and> (\<exists>n. tick s < n \<and> n < tick s' \<and> env_now E n < tokenDeadline s')
    \<and> tokenDeadline s' \<le> env_now E (tick s') + TokenCacheMaxSeconds (TokenClient (config P)) * second
    \<and> (\<exists>ts. sent s' = sent s @ ts \<and> length ts \<le> 1 \<and> list_all (is_token_request P) ts)"
proof -
  have c: "cache_ok E P s'" by (rule accessToken_cache_ok [OF assms])
  have t: "token s' = tok" "tok \<noteq> []"
    using accessToken_ok(1) [OF assms(1)] accessToken_nonempty [OF assms(1)] .
  show ?thesis
    using c t accessToken_ok(2) [OF assms(1)] accessToken_frame(2) [OF assms(1)] by (simp add: cache_ok_def)
qed

theorem token_live_and_sendable_witness:
  "token_text ''t'' \<and> (\<exists>n. env_now ex_env n < tokenDeadline (ex_state\<lparr>tick := 2\<rparr>))"
  using token_live_and_sendable [OF ex_access_token ex_cache_ok _ ex_cap] by auto

text \<open>C13. A token is taken only from one request to the configured token endpoint that was answered
  200 with a response of type Bearer, a positive lifetime and a token that is visible ASCII of
  at most 64 KiB; it is kept for the lesser of its lifetime and the configured maximum. When
  the response names scopes, every requested scope is among them.\<close>

theorem token_response_checked:
  assumes "acquire E P start s = (Inr (tok, life), s')"
  shows "\<exists>rq raw out. is_token_request P rq \<and> sent s' = sent s @ [rq]
    \<and> env_http E (Suc (tick s)) rq = HttpResponse 200 raw False
    \<and> decodeJSON token_member no_token raw = Some out
    \<and> tok = AccessToken out \<and> token_text tok \<and> equal_fold (TokenType out) ''Bearer'' \<and> 0 < ExpiresIn out
    \<and> life = min (ExpiresIn out) (TokenCacheMaxSeconds (TokenClient (config P))) * second
    \<and> (\<forall>x. Scope out = Some x \<longrightarrow> (\<exists>granted. parseScope x = Some granted
         \<and> set (Scopes (TokenClient (config P))) \<subseteq> set granted))"
proof -
  obtain rq raw out where A: "is_token_request P rq" "sent s' = sent s @ [rq]"
    "env_http E (Suc (tick s)) rq = HttpResponse 200 raw False"
    "decodeJSON token_member no_token raw = Some out" "token_accepted (TokenClient (config P)) out"
    "tok = AccessToken out" "life = token_lifetime (TokenClient (config P)) out"
    using acquire_ok [OF assms] by blast
  have "token_text tok" using token_accepted_text [OF A(5)] A(6) by simp
  moreover have "life = min (ExpiresIn out) (TokenCacheMaxSeconds (TokenClient (config P))) * second"
    using A(7) by (simp add: token_lifetime_def min_def)
  moreover have "equal_fold (TokenType out) ''Bearer''" "0 < ExpiresIn out"
    using A(5) by (simp_all add: token_accepted_def not_le)
  moreover have "\<exists>granted. parseScope x = Some granted \<and> set (Scopes (TokenClient (config P))) \<subseteq> set granted"
    if "Scope out = Some x" for x
    using A(5) that by (auto simp: token_accepted_def scope_granted_def list_all_iff split: option.splits)
  ultimately show ?thesis using A by blast
qed

theorem token_response_checked_witness:
  "\<exists>out :: token_response. AccessToken out = ''t'' \<and> 0 < ExpiresIn out"
proof -
  obtain s' where "acquire ex_env ex_provider 0 ex_state = (Inr (''t'', 300 * second), s')" using ex_acquired by blast
  from token_response_checked [OF this] obtain out :: token_response where "''t'' = AccessToken out" "0 < ExpiresIn out" by blast
  then show ?thesis by (intro exI [of _ out]) simp
qed

text \<open>C14. An acquisition never touches the cache, sends at most one request whatever happens, and
  reports nothing but unavailability when it fails.\<close>

theorem acquisition_fails_closed:
  "token (snd (acquire E P start s)) = token s
    \<and> tokenDeadline (snd (acquire E P start s)) = tokenDeadline s
    \<and> length (sent (snd (acquire E P start s))) \<le> Suc (length (sent s))
    \<and> fst (acquire E P start s) \<in> insert (Inl ErrUnavailable) (range Inr)"
proof -
  obtain r s' where A: "acquire E P start s = (r, s')" by (cases "acquire E P start s")
  have "r \<in> insert (Inl ErrUnavailable) (range Inr)"
    using acquire_frame(5) [OF A] by (cases r) auto
  then show ?thesis using provider_client.client_frame [OF A] A by simp
qed

text \<open>C15. With any number of goroutines calling \<open>accessToken\<close> in any interleaving, at most one is
  acquiring a token; while one is, the cache is empty, so no caller is served the old token.\<close>

theorem one_acquisition_at_a_time:
  assumes "tc_reachable E (acquire E P) cx w" and "leads (phases w t) = Some f"
  shows "acquiring w = Some f \<and> token (cache w) = [] \<and> (\<forall>u. u \<noteq> t \<longrightarrow> leads (phases w u) = None)"
proof -
  have inv: "single_flight w" "cleared w"
    using provider_client.reachable_inv [OF assms(1)] by simp_all
  show ?thesis using single_flight_leader [OF inv(1) assms(2)] inv(2) by (simp add: cleared_def)
qed

theorem one_acquisition_at_a_time_witness:
  "\<exists>w. tc_reachable ex_env (acquire ex_env ex_provider) (\<lambda>_ _. None) w \<and> acquiring w = Some 0 \<and> token (cache w) = []"
  using one_acquisition_at_a_time [of ex_env ex_provider ex_cx ex_led 0 0] ex_leading by blast

text \<open>C16. No goroutine waits for ever. In every infinite run of the goroutines that is fair (one that
  leads a flight, or waits for a flight that has landed, is eventually scheduled, and an
  acquisition ends) a goroutine that waits for a flight stops waiting. The step by which it does
  is one of three: its flight has landed with a token and it goes back to the head of the loop,
  its flight has landed with an error and it returns just that error, or its own context is done
  and it returns unavailability.\<close>

theorem waiters_are_woken:
  assumes "tc_run E (acquire E P) cx run" and "fair run" and "phases (run i) t = Waiting f"
  shows "\<exists>m \<ge> i. (\<forall>k. i \<le> k \<and> k \<le> m \<longrightarrow> phases (run k) t = Waiting f)
    \<and> (flights (run m) ! f = Landed None \<and> phases (run (Suc m)) t = Calling
     \<or> (\<exists>e. flights (run m) ! f = Landed (Some e) \<and> phases (run (Suc m)) t = Returned (Inl e))
     \<or> cx t (tick (cache (run m))) \<noteq> None \<and> phases (run (Suc m)) t = Returned (Inl ErrUnavailable))"
  by (rule provider_client.waiter_leaves [OF assms])

theorem waiters_are_woken_witness:
  "\<exists>run i m. tc_run ex_down (acquire ex_down ex_provider) (\<lambda>_ _. None) run \<and> fair run \<and> phases (run i) 1 = Waiting 0
     \<and> i \<le> m \<and> phases (run (Suc m)) 1 \<in> insert Calling (range (\<lambda>e. Returned (Inl e)))"
proof -
  obtain run i where r: "tc_run ex_down (acquire ex_down ex_provider) (\<lambda>_ _. None) run" "fair run"
    "phases (run i) 1 = Waiting 0"
    using ex_fair_run by blast
  obtain m where "i \<le> m" "phases (run (Suc m)) 1 \<in> insert Calling (range (\<lambda>e. Returned (Inl e)))"
    using waiters_are_woken [OF r] by blast
  with r show ?thesis by blast
qed

text \<open>C17. When an acquisition fails, or its token has already expired, the cache is empty when the
  goroutine returns, whatever the other goroutines did meanwhile. While the clock does not go
  back, what any goroutine has returned in a reachable state is a sendable token or
  unavailability.\<close>

theorem failed_acquisition_not_cached:
  assumes "tc_reachable E (acquire E P) cx w"
  shows "(\<forall>t f start r e s. phases w t = Fetched f start r \<and> store_token E start r (cache w) = (Inl e, s)
        \<longrightarrow> token s = [])
    \<and> (mono (env_now E) \<longrightarrow> (\<forall>t q. phases w t = Returned q \<longrightarrow>
        (case q of Inl e \<Rightarrow> e = ErrUnavailable | Inr tok \<Rightarrow> token_text tok)))"
proof (intro conjI allI impI)
  fix t f start r e s
  assume "phases w t = Fetched f start r \<and> store_token E start r (cache w) = (Inl e, s)"
  then show "token s = []"
    using provider_client.publish_failed [OF assms, of t f start r] by (simp add: flight_error_def)
next
  fix t q
  assume m: "mono (env_now E)" and q: "phases w t = Returned q"
  have "phase_ok E (cache_cap P) (tick (cache w)) (phases w t)"
    using provider_client.reachable_contents [OF assms m] unfolding contents_ok_def by blast
  then show "case q of Inl e \<Rightarrow> e = ErrUnavailable | Inr tok \<Rightarrow> token_text tok"
    unfolding q by (cases q) simp_all
qed

theorem failed_acquisition_not_cached_witness:
  "store_token ex_down (1000 * second) (Inl ErrUnavailable) (cache ex_fetched) = (Inl ErrUnavailable, cache ex_fetched)
     \<and> token (cache ex_fetched) = []"
proof -
  have S: "store_token ex_down (1000 * second) (Inl ErrUnavailable) (cache ex_fetched)
      = (Inl ErrUnavailable, cache ex_fetched)" by (simp add: store_token_def)
  with failed_acquisition_not_cached [OF ex_failed(1)] ex_failed(2) show ?thesis by blast
qed

text \<open>C18. A goroutine that runs while no other is acquiring goes through the interleaved steps to
  exactly the result and the cache that the sequential \<open>accessToken\<close> computes.\<close>

theorem alone_is_sequential:
  assumes "accessToken E P (cache w) = (r, s')" and "phases w t = Calling" and "acquiring w = None"
    and "cx t = env_ctx E"
  shows "\<exists>w'. (tc_step E (acquire E P) cx)\<^sup>*\<^sup>* w w' \<and> cache w' = s' \<and> acquiring w' = None
    \<and> phases w' = (phases w)(t := Returned r)"
  using assms by (rule alone)

theorem alone_is_sequential_witness:
  "\<exists>w'. (tc_step ex_env (acquire ex_env ex_provider) (\<lambda>_. env_ctx ex_env))\<^sup>*\<^sup>*
      (goto ((tc_start 0)\<lparr>cache := ex_state\<rparr>) 0 Calling) w' \<and> phases w' 0 = Returned (Inr ''t'')"
  using alone_is_sequential [of ex_env ex_provider "goto ((tc_start 0)\<lparr>cache := ex_state\<rparr>) 0 Calling" "Inr ''t''"
      "ex_state\<lparr>tick := 2\<rparr>" 0 "\<lambda>_. env_ctx ex_env"] ex_access_token
  by (auto simp: tc_start_def)

text \<open>C19. The ordered list of checks accepts a configuration exactly when it satisfies the
  policy, which is stated without the code's predicates: endpoints are HTTPS, or HTTP
  where insecure HTTP was allowed, with a host and no user information, query or fragment; the
  resource is an absolute URI without user information or fragment; scopes are 1 to 32 distinct RFC 6749 tokens;
  lifetimes and sizes are within their bounds; field names have the allowed characters,
  account-check fields are provisioned and include the selector; claims are not protocol claims
  and \<open>sub\<close> is the subject identifier; no more than one demo verifier is enabled, with a local
  mail server and plain addresses; and the texts and secret files are named.\<close>

theorem validation_is_the_policy:
  "validate c = Inr () \<longleftrightarrow> policy c"
  unfolding policy_code
proof
  assume V: "validate c = Inr ()"
  then have "list_all fst (checks c)" by (simp add: validate_Inr)
  then have "\<not> blank (PSUTSecretFile c) \<and> \<not> blank (PrivateKeyFile (TokenClient c))
      \<and> (StaticOTPEnabled (Demo c) \<longrightarrow> \<not> blank (StaticOTPFile (Demo c)))"
    by (simp add: checks_def)
  with validate_policy [OF V] show "endpoints_ok c \<and> bounds_ok c \<and> fields_ok c \<and> texts_ok c \<and> demo_ok c
    \<and> \<not> blank (PSUTSecretFile c) \<and> \<not> blank (PrivateKeyFile (TokenClient c))
    \<and> (StaticOTPEnabled (Demo c) \<longrightarrow> \<not> blank (StaticOTPFile (Demo c)))" by simp
next
  assume P: "endpoints_ok c \<and> bounds_ok c \<and> fields_ok c \<and> texts_ok c \<and> demo_ok c
    \<and> \<not> blank (PSUTSecretFile c) \<and> \<not> blank (PrivateKeyFile (TokenClient c))
    \<and> (StaticOTPEnabled (Demo c) \<longrightarrow> \<not> blank (StaticOTPFile (Demo c)))"
  then have "validField (SelectorField (BREG c))"
    unfolding fields_ok_def list_all_iff by blast
  with P show "validate c = Inr ()" by (intro validate_complete) simp_all
qed

theorem validation_is_the_policy_witness: "policy ex_config"
  using validation_is_the_policy [of ex_config] ex_validated(1) by blast

text \<open>C20. A validated configuration that does not allow insecure HTTP has only HTTPS endpoints, with
  a host, no user information, no query and no fragment.\<close>

theorem secure_endpoints:
  assumes "validate c = Inr ()" and "\<not> AllowInsecureHTTP (HTTP c)"
    and "e \<in> {TokenEndpoint (TokenClient c), AssertionAudience (TokenClient c), BaseURL (BREG c)}"
  shows "\<exists>u. url_parse e = Some u \<and> Scheme u = ''https'' \<and> Host u \<noteq> [] \<and> User u = None
    \<and> RawQuery u = [] \<and> Fragment u = []"
proof -
  have "validEndpoint e (AllowInsecureHTTP (HTTP c))"
    using validate_policy(1) [OF assms(1)] assms(3) by (auto simp: endpoints_ok_def)
  then show ?thesis using validEndpoint_https assms(2) by simp
qed

theorem secure_endpoints_witness: "\<exists>u. url_parse ''https://a'' = Some u \<and> Scheme u = ''https''"
  using secure_endpoints [OF ex_validated, of "''https://a''"]
  by (auto simp: ex_config_def ex_token_client_def)

text \<open>C21. With a validated configuration no released attribute carries the name of a protocol claim,
  and an attribute named \<open>sub\<close> is the pairwise subject identifier of the context that was handed
  over and restored, whatever the registry returns.\<close>

theorem protocol_claims_protected:
  assumes "validate (config P) = Inr ()" and "GetAttributes E P state b (Some claims) s = (Inr res, s')"
    and "map_of res k = Some v"
  shows "\<not> reservedClaim k \<and> (k = ''sub'' \<longrightarrow>
    (\<exists>a s1. restore E P state b s = (Inr a, s1) \<and> v = JStr (psut P a)))"
  using assms(2)
proof (cases rule: GetAttributes_cases)
  case (ok cs a s1 data)
  let ?names = "needed_fields (config P) cs []"
  have V: "claim_value (config P) ?names data (psut P a) k = Some v"
    using ok(4) assms(3) by (auto simp: claim_values_map split: if_splits)
  then obtain src where src: "map_of (ClaimMap (config P)) k = Some src"
    by (auto simp: claim_value_def split: option.splits)
  have "claim_ok k src"
    using validate_policy(3) [OF assms(1)] map_of_SomeD [OF src] by (auto simp: fields_ok_def)
  note C = claim_ok_policy [OF this]
  have "v = JStr (psut P a)" if "k = ''sub''"
    using V src C(2) [OF that] by (auto simp: claim_value_def)
  with C(1) ok(2) show ?thesis by blast
qed simp_all

theorem protocol_claims_protected_witness:
  "\<exists>a s1. restore ex_env ex_provider (GoMap (context_map ex_context)) ex_binding ex_state = (Inr a, s1)
     \<and> psut ex_provider ex_context = psut ex_provider a"
  using protocol_claims_protected [OF ex_provider_validated ex_attributes, of "''sub''"] by simp

text \<open>C22. A configuration that loads passed validation with every default applied: loading again what
  was loaded changes nothing. It came from one YAML document of at most 1 MiB, decoded with
  unknown fields refused and without the retired \<open>mint\<close> section.\<close>

theorem loaded_configuration:
  assumes "LoadConfig y fs path = Inr c"
  shows "validate c = Inr () \<and> defaults c = c
    \<and> (\<exists>b d raw. fs path = FileData b False \<and> length b \<le> 2 ^ 20 \<and> yaml_unmarshal y b = Some d
      \<and> \<not> hasTopLevelKey d ''mint'' \<and> yaml_decode_strict y b = Some raw \<and> c = defaults raw \<and> yaml_second_is_eof y b)"
  using LoadConfig_ok [OF assms] by auto

theorem loaded_configuration_witness: "validate ex_config = Inr () \<and> defaults ex_config = ex_config"
  using loaded_configuration [OF ex_loaded] by blast

text \<open>C23. The scope text of the token request reads back as the configured scopes, so a server that
  echoes it grants exactly them; and any scope text the parser accepts is the join of the
  valid tokens it returns.\<close>

theorem scopes_round_trip:
  assumes "validScopes ss"
  shows "parseScope (join '' '' ss) = Some ss
    \<and> scope_granted ss (Some (join '' '' ss))
    \<and> (parseScope x = Some granted \<longrightarrow> join '' '' granted = x \<and> (\<forall>g \<in> set granted. validScopeToken g))"
  using parseScope_join [OF assms] parseScope_sound [of x granted]
  by (simp add: scope_granted_def list_all_iff)

theorem scopes_round_trip_witness: "parseScope ''read write'' = Some [''read'', ''write'']"
  using scopes_round_trip [of "[''read'', ''write'']"]
  by (simp add: validScopes_iff validScopeToken_def)

text \<open>C24. A constructed provider has its defaults applied and its configuration validated, a secret
  of 32 to 4096 bytes, a signing key that satisfies the key policy under the configured key
  id, an HTTP client that follows no redirect, and the verifier that was supplied or the demo
  verifier the configuration enables, the static one only with a non-empty code.\<close>

theorem constructed_provider:
  assumes "New cl fs appends supplied c = Inr (P, v, h)"
  shows "config P = defaults c \<and> validate (config P) = Inr ()
    \<and> 32 \<le> length (secret P) \<and> length (secret P) \<le> 4096
    \<and> key_policy cl (key P) \<and> ak_kid (key P) = KeyID (TokenClient (config P))
    \<and> \<not> FollowRedirects h \<and> (v = Supplied \<longleftrightarrow> supplied)
    \<and> (\<forall>otp. v = StaticVerifier otp \<longrightarrow> StaticOTPEnabled (Demo c) \<and> otp \<noteq> [])
    \<and> (\<forall>m t. v = MailpitVerifier m t \<longrightarrow> mp_Enabled (Mailpit (Demo c)) \<and> m = Mailpit (Demo c))"
  using New_ok [OF assms] choose_verifier_policy [OF New_ok(8) [OF assms]]
  by (auto simp: defaults_keeps)

theorem constructed_provider_witness:
  "validate (config ex_provider) = Inr () \<and> 32 \<le> length (secret ex_provider)"
  using constructed_provider [OF ex_new] by blast

text \<open>C25. A key that loads is an RSA key of at least 2048 bits that validates, used as RS256, or a
  P-256 key used as ES256, with a key id that is not blank and is the configured one when one
  is configured.\<close>

theorem signing_key_policy:
  assumes "loadKey cl fs path kid = Some a"
  shows "\<not> blank (ak_kid a) \<and> (kid \<noteq> [] \<longrightarrow> ak_kid a = kid)
    \<and> ((\<exists>k. ak_key a = RSAKey k \<and> ak_alg a = ''RS256'' \<and> 2 ^ 2047 \<le> rsa_N k \<and> rsa_validate cl k)
       \<or> (\<exists>x y d. ak_key a = ECDSAKey True x y d \<and> ak_alg a = ''ES256''))"
  using loadKey_policy [OF assms] loadKey_kid [OF assms]
  by (auto simp: key_policy_def split: private_key.splits)

theorem signing_key_policy_witness:
  "\<exists>a. loadKey ex_crypto ex_files ''k'' ''1'' = Some a \<and> ak_kid a = ''1''"
  using signing_key_policy [OF ex_load_key] ex_load_key by simp

text \<open>C26. The client assertion is three base64url parts; read back, the header names the key's
  algorithm and id, the body has the client as issuer and subject, the audience, the two times
  and a fresh identifier of the 24 random bytes, and the third part is the signature of the
  SHA-256 digest of the first two.\<close>

theorem assertion_claims:
  assumes "assertion sg k nonce client audience iat exp = Inr tok"
  shows "\<exists>h b sig n head body. split_on (CHR ''.'') tok = [h, b, sig] \<and> nonce = Some n
    \<and> raw_url_decode h = Some head \<and> parse_doc head = Some (JObj [(''alg'', JStr (sanitize (ak_alg k))),
         (''kid'', JStr (sanitize (ak_kid k))), (''typ'', JStr ''JWT'')])
    \<and> raw_url_decode b = Some body \<and> parse_doc body = Some (JObj [(''aud'', JStr (sanitize audience)),
         (''exp'', JNum (show_int exp)), (''iat'', JNum (show_int iat)), (''iss'', JStr (sanitize client)),
         (''jti'', JStr (raw_url_base64 n)), (''sub'', JStr (sanitize client))])
    \<and> map_option raw_url_base64 (signature sg (ak_key k) (sha256 (h @ ''.'' @ b))) = Some sig"
proof -
  obtain n sig where A: "nonce = Some n"
    "split_on (CHR ''.'') tok = [raw_url_base64 (marshal (assertion_head k)),
       raw_url_base64 (marshal (assertion_body client audience iat exp n)), raw_url_base64 sig]"
    "signature sg (ak_key k) (sha256 (assertion_input k client audience iat exp n)) = Some sig"
    by (rule assertion_split [OF assms])
  define head body where HB: "head = marshal (assertion_head k)"
    "body = marshal (assertion_body client audience iat exp n)"
  have sig: "map_option raw_url_base64 (signature sg (ak_key k)
      (sha256 (raw_url_base64 head @ ''.'' @ raw_url_base64 body))) = Some (raw_url_base64 sig)"
    using A(3) unfolding assertion_input_def HB [symmetric] by simp
  show ?thesis
    using A(1) A(2) [folded HB] parse_assertion_head [of k, folded HB]
      parse_assertion_body [of client audience iat exp n, folded HB] sig
      raw_url_decode_encode [of head] raw_url_decode_encode [of body] by blast
qed

theorem assertion_claims_witness:
  "\<exists>tok h b sig. assertion (env_signer ex_env 0) (key ex_provider) (rand_read ex_env 0 24) ''c'' ''a'' 1000 1120 = Inr tok
     \<and> split_on (CHR ''.'') tok = [h, b, sig]"
proof -
  obtain tok where "assertion (env_signer ex_env 0) (key ex_provider) (rand_read ex_env 0 24) ''c'' ''a'' 1000 1120 = Inr tok"
    using ex_assertion by blast
  with assertion_claims [OF this] show ?thesis by blast
qed

text \<open>C27. Sending a one-time password succeeds only for a valid subject and binding and the two known
  channels, when the verifier sent it and its context is still live; any failure is an invalid
  request, with nothing done, or unavailability, and the registry is never contacted.\<close>

theorem otp_request:
  assumes "SendOTP E P cv r v s = (e, v', s')"
  shows "sent s' = sent s \<and> token s' = token s
    \<and> (e = None \<longrightarrow> validSubject P (otp_Identifier r) (otp_IdentifierType r) \<and> validBinding (otp_Binding r)
        \<and> otp_Channels r \<noteq> [] \<and> set (otp_Channels r) \<subseteq> {''email'', ''phone''}
        \<and> (\<exists>n. VerifierSendOTP cv (call_ctx E) r v (tick s) = (None, v', n) \<and> call_ctx E n = None))
    \<and> (e \<noteq> None \<longrightarrow> e = Some ErrUnavailable \<or> e = Some ErrInvalidRequest \<and> v' = v \<and> s' = s)"
proof (cases e)
  case None
  then show ?thesis using SendOTP_None [of E P cv r v s v' s'] assms by auto
next
  case (Some x)
  then show ?thesis using SendOTP_Some [of E P cv r v s x v' s'] assms by auto
qed

theorem otp_request_witness:
  "set [''email''] \<subseteq> {''email'', ''phone'' :: string}"
  using otp_request [OF ex_otp_sent] by (simp add: ex_otp_def)

text \<open>C28. The Mailpit verifier accepts a code exactly when its context is live and an unexpired
  challenge is pending for the same identifier, type and binding whose salted digest the code
  has. A code works once: after it is accepted nothing is pending under that key. Challenges
  of other keys are untouched either way.\<close>

theorem mailpit_accepts:
  assumes "mailpit_Verify E x r m n = (e, m', n')"
  shows "(e = None \<longleftrightarrow> x n = None \<and> (\<exists>ch. map_of (pending m) (verify_key r) = Some ch
        \<and> env_now E (Suc n) < expires ch \<and> digest ch = mailpitDigest (salt ch) (cr_Challenge r)))
    \<and> (e = None \<longrightarrow> map_of (pending m') (verify_key r) = None)
    \<and> (\<forall>k. k \<noteq> verify_key r \<longrightarrow> map_of (pending m') k = map_of (pending m) k)"
proof (intro conjI impI allI)
  have e: "e = fst (mailpit_Verify E x r m n)" using assms by simp
  show "e = None \<longleftrightarrow> x n = None \<and> (\<exists>ch. map_of (pending m) (verify_key r) = Some ch
        \<and> env_now E (Suc n) < expires ch \<and> digest ch = mailpitDigest (salt ch) (cr_Challenge r))"
    unfolding e by (rule mailpit_Verify_accepts)
  show "map_of (pending m') (verify_key r) = None" if "e = None"
    using assms that mailpit_check_used [of "env_now E (Suc n)" "verify_key r" "cr_Challenge r" m]
    by (auto simp: mailpit_Verify_def split: option.splits prod.splits if_splits)
  show "map_of (pending m') k = map_of (pending m) k" if "k \<noteq> verify_key r" for k
    using mailpit_Verify_state(2) [OF assms] mailpit_check_other [OF that] by auto
qed

theorem mailpit_accepts_witness:
  "fst (mailpit_Verify ex_env (\<lambda>_. None) ex_request ex_pending 0) = None
    \<and> fst (mailpit_Verify ex_env (\<lambda>_. None) ex_request newMailpitVerifier 0) = Some (ProviderErr ErrChallengeFailed)"
proof -
  obtain e m' n' where A: "mailpit_Verify ex_env (\<lambda>_. None) ex_request ex_pending 0 = (e, m', n')"
    by (cases "mailpit_Verify ex_env (\<lambda>_. None) ex_request ex_pending 0")
  from mailpit_accepts [OF A] have "e = None"
    by (simp add: ex_pending_def ex_request_def second_def newMailpitVerifier_def)
  have V: "mailpit_Verify ex_env (\<lambda>_. None) ex_request newMailpitVerifier 0
      = (Some (ProviderErr ErrChallengeFailed), newMailpitVerifier, 1)"
    by (simp add: mailpit_Verify_def mailpit_check_def newMailpitVerifier_def)
  from mailpit_accepts [OF V] show ?thesis by (simp add: A V \<open>e = None\<close>)
qed

text \<open>C29. However many codes are tried, in whatever order and mixed with tries for other
  transactions, at most one try for a pending challenge succeeds, and only among the first
  five.\<close>

theorem mailpit_guesses:
  assumes "mailpit_inv m" and "results_for k (check_all cs m) ! i" and "i < length (results_for k (check_all cs m))"
  shows "i < mailpitMaxAttempts
    \<and> (\<forall>j < length (results_for k (check_all cs m)). j \<noteq> i \<longrightarrow> \<not> results_for k (check_all cs m) ! j)"
proof -
  have left: "attempts_left k m \<le> mailpitMaxAttempts"
    by (simp add: attempts_left_def split: option.splits)
  from check_all_results [OF assms(1), of k cs] show ?thesis
  proof (elim disjE exE conjE)
    fix j assume "results_for k (check_all cs m) = replicate j False"
    then show ?thesis using assms(2,3) by simp
  next
    fix a b assume R: "a < attempts_left k m"
      "results_for k (check_all cs m) = replicate a False @ True # replicate b False"
    have at: "results_for k (check_all cs m) ! j \<longleftrightarrow> j = a" if "j < a + Suc b" for j
      using that by (auto simp: R(2) nth_append nth_Cons split: nat.splits)
    then have "i = a" using assms(2,3) by (simp add: R(2))
    then show ?thesis using R(1) left at by (auto simp: R(2))
  qed
qed

theorem mailpit_guesses_witness:
  "mailpit_inv ex_pending \<and> results_for (verify_key ex_request) (check_all [(0, verify_key ex_request, ''42'')] ex_pending) ! 0"
proof -
  have R: "results_for (verify_key ex_request) (check_all [(0, verify_key ex_request, ''42'')] ex_pending) = [True]"
    using ex_check by (cases "mailpit_check 0 (verify_key ex_request) ''42'' ex_pending") (simp add: results_for_def)
  then show ?thesis
    using ex_pending_inv mailpit_guesses [OF ex_pending_inv, of "verify_key ex_request" "[(0, verify_key ex_request, ''42'')]" 0]
    by simp
qed

text \<open>C30. With any number of concurrent senders and verifiers the Mailpit verifier never holds more
  than 1024 challenges that are pending or that a call in flight may still install; the count of
  calls in flight is exactly the number of calls that have been admitted and have not left, keys
  are distinct, and every pending challenge has an attempt left.\<close>

theorem mailpit_capacity:
  assumes "mp_reachable E c w"
  shows "length (pending (verifier w)) + size {# x \<in># senders w. x \<noteq> Leaving #} \<le> 1024
    \<and> inFlight (verifier w) = size (senders w)
    \<and> distinct (map fst (pending (verifier w)))
    \<and> (\<forall>(k, ch) \<in> set (pending (verifier w)). attempts ch < 5)"
  using mp_reachable_inv [OF assms]
  by (simp add: mp_inv_def mailpit_inv_def mailpitMaxPending_def mailpitMaxAttempts_def)

theorem mailpit_capacity_witness:
  "\<exists>w. mp_reachable ex_env ex_mailpit w \<and> senders w = {# Admitted (send_key ex_otp) #} \<and> inFlight (verifier w) = 1"
proof -
  let ?w = "\<lparr>verifier = newMailpitVerifier, senders = {#}\<rparr>"
  have "mailpit_admit ex_env (verifier ?w) 0 = (True, newMailpitVerifier\<lparr>inFlight := 1\<rparr>, 0)"
    by (simp add: mailpit_admit_def newMailpitVerifier_def mailpitMaxPending_def)
  then have "mp_step ex_env ex_mailpit ?w (?w\<lparr>verifier := newMailpitVerifier\<lparr>inFlight := 1\<rparr>,
      senders := add_mset (Admitted (send_key ex_otp)) (senders ?w)\<rparr>)"
    by (rule mp_step.admit)
  then have r: "mp_reachable ex_env ex_mailpit \<lparr>verifier = newMailpitVerifier\<lparr>inFlight := 1\<rparr>,
      senders = {# Admitted (send_key ex_otp) #}\<rparr>"
    using mp_reachable.step [OF mp_reachable.start] by simp
  from mailpit_capacity [OF r] r show ?thesis by (intro exI conjI) (assumption, simp_all)
qed

text \<open>C31. A successful send has mailed one message, whose lines are exactly the expected ones, with a
  six-digit code that is the number drawn from the random source in this call, and has digested
  it with a salt of 16 bytes drawn next; that code, presented for the same identifier, type and binding, is
  accepted until five minutes after it was made, and another code only if the salted SHA-256
  digests collide.\<close>

theorem mailpit_code_round_trip:
  assumes "mailpit_SendOTP E c x r m n = (None, m', n')" and "verify_key q = send_key r"
    and "validMailAddress (Sender c)" and "validMailAddress (Recipient c)"
  shows "\<exists>code sa i z. outbox m' = outbox m @ smtp_script c code \<and> length code = 6 \<and> list_all is_digit code
    \<and> n \<le> i \<and> i + 2 < n' \<and> env_code E i = Some z \<and> digits_value code = z mod 1000000
    \<and> rand_read E (i + 1) 16 = Some sa
    \<and> split_on (CHR 0x0A) (mail_text c code) =
        [''From: '' @ Sender c @ [CHR 0x0D], ''To: '' @ Recipient c @ [CHR 0x0D],
         ''Subject: Synthetic eSignet code'' @ [CHR 0x0D], [CHR 0x0D],
         ''Your synthetic login code is '' @ code @ [CHR 0x0D], []]
    \<and> (\<forall>E2 y j. fst (mailpit_Verify E2 y q m' j) = None \<longleftrightarrow> y j = None
         \<and> env_now E2 (Suc j) < env_now E (i + 2) + mailpitChallengeTTL
         \<and> sha256 (sa @ code) = sha256 (sa @ cr_Challenge q))"
proof -
  obtain code sa i z where S: "outbox m' = outbox m @ smtp_script c code" "length code = 6"
    "list_all is_digit code" "n \<le> i" "i + 2 < n'" "env_code E i = Some z" "digits_value code = z mod 1000000"
    "rand_read E (i + 1) 16 = Some sa"
    and V: "\<And>E2 y q j. verify_key q = send_key r \<Longrightarrow> fst (mailpit_Verify E2 y q m' j) = None \<longleftrightarrow> y j = None
         \<and> env_now E2 (Suc j) < env_now E (i + 2) + mailpitChallengeTTL
         \<and> sha256 (sa @ code) = sha256 (sa @ cr_Challenge q)"
    using mailpit_SendOTP_then_Verify [OF assms(1)] by metis
  show ?thesis
    using S mail_lines [OF assms(3,4) S(3)] V [OF assms(2)]
    by (intro exI [of _ code] exI [of _ sa] exI [of _ i] exI [of _ z] conjI) simp_all
qed

theorem mailpit_code_round_trip_witness:
  "\<exists>(m' :: mailpitVerifier) code. fst (mailpit_SendOTP ex_env ex_mailpit (\<lambda>_. None) ex_otp newMailpitVerifier 0) = None
     \<and> outbox m' = smtp_script ex_mailpit code \<and> length code = 6"
proof -
  obtain m' n' where S: "mailpit_SendOTP ex_env ex_mailpit (\<lambda>_. None) ex_otp newMailpitVerifier 0 = (None, m', n')"
    using ex_mail_sent by blast
  have "verify_key ex_request = send_key ex_otp" by (simp add: verify_key_def send_key_def ex_request_def ex_otp_def)
  from mailpit_code_round_trip [OF S this] ex_mail_addresses
  obtain code where "outbox m' = outbox newMailpitVerifier @ smtp_script ex_mailpit code" "length code = 6" by blast
  then have "fst (mailpit_SendOTP ex_env ex_mailpit (\<lambda>_. None) ex_otp newMailpitVerifier 0) = None
      \<and> outbox m' = smtp_script ex_mailpit code \<and> length code = 6"
    by (simp add: S) (simp add: newMailpitVerifier_def)
  then show ?thesis by blast
qed

text \<open>C32. A whole login through the adapter with the Mailpit verifier. After a successful send, a later
  authentication for the same user, client and transaction contacts the registry, or succeeds,
  only with a code whose salted digest is the mailed one's and within five minutes of it; while
  the request is not cancelled such a code is always accepted and leads to the registry check,
  and any other is an authentication failure that sends nothing.\<close>

theorem mail_login:
  assumes "identity p = core_identity E P (mailpit_verifier E c)"
    and "AdapterSendOTP p entropy ids (Some m) (v, s) = (Inr tid, (v', s'))"
    and "string_value ids2 ''username'' = string_value ids ''username''"
    and "header m2 ''initiator_query_client_id'' = header m ''initiator_query_client_id''"
    and "header m2 transactionKey = [tid]"
    and "string_value creds ''otp'' = Some given" and "length creds = 1" and "validText given"
    and "AdapterAuthenticate p ids2 creds (Some m2) (v', s2) = (q, (v2, s3))"
  shows "\<exists>uid b code sa i. outbox v' = outbox v @ smtp_script c code \<and> length code = 6 \<and> list_all is_digit code
    \<and> tick s < i \<and> i < tick s' \<and> TransactionID b = tid \<and> binding p m2 True = Inr b
    \<and> (let good = (env_now E (tick s2 + 2) < env_now E i + mailpitChallengeTTL
             \<and> sha256 (sa @ code) = sha256 (sa @ given))
       in (sent s3 \<noteq> sent s2 \<or> (\<exists>res. q = Inr res) \<longrightarrow> good)
        \<and> ((\<forall>n. call_ctx E n = None) \<longrightarrow>
            (good \<longrightarrow> (\<exists>n. case auth_finish E P (bound_request p uid given b) (s2\<lparr>tick := n\<rparr>) of
                 (Inl e, s4) \<Rightarrow> q = Inl (providerError (ProviderErr e)) \<and> s3 = s4
               | (Inr out, s4) \<Rightarrow> q = Inr \<lparr>EntityID = ar_Subject out, AttributeToken = ar_Context out\<rparr> \<and> s3 = s4))
          \<and> (\<not> good \<longrightarrow> q = Inl AuthenticationFailedError \<and> sent s3 = sent s2)))"
proof -
  obtain uid b code sa i where M: "string_value ids ''username'' = Some uid" "uid \<noteq> []"
    "binding p m2 True = Inr b" "TransactionID b = tid" "validSubject P uid (identifierType p)" "validBinding b"
    "outbox v' = outbox v @ smtp_script c code" "length code = 6" "list_all is_digit code" "tick s < i" "i < tick s'"
    and V: "\<And>y j given. fst (mailpit_Verify E y (bound_request p uid given b) v' j) = None \<longleftrightarrow> y j = None
       \<and> env_now E (Suc j) < env_now E i + mailpitChallengeTTL \<and> sha256 (sa @ code) = sha256 (sa @ given)"
    using adapter_mail [OF assms(1,2,4,5)] by metis
  let ?r = "bound_request p uid given b" and ?j = "Suc (tick s2)"
  let ?good = "env_now E (tick s2 + 2) < env_now E i + mailpitChallengeTTL \<and> sha256 (sa @ code) = sha256 (sa @ given)"
  have given: "given \<noteq> []" and valid: "valid_request P ?r"
    using assms(8) M(5,6) by (auto simp: valid_request_def bound_request_def dest: validText_nonempty)
  obtain e v3 n where R: "mailpit_Verify E (call_ctx E) ?r v' ?j = (e, v3, n)"
    by (cases "mailpit_Verify E (call_ctx E) ?r v' ?j")
  have accept: "e = None \<longleftrightarrow> call_ctx E ?j = None \<and> ?good"
    using V [of "call_ctx E" given ?j] by (simp add: R)
  have A: "AdapterAuthenticate p ids2 creds (Some m2) (v', s2) =
    (case Authenticate E P (mailpit_verifier E c) ?r v' s2 of
       (Inl e, i') \<Rightarrow> (Inl (providerError (ProviderErr e)), i')
     | (Inr out, i') \<Rightarrow> (Inr \<lparr>EntityID = ar_Subject out, AttributeToken = ar_Context out\<rparr>, i'))"
    using M(1,2) assms(3) by (intro adapter_auth_core [OF assms(1) M(3) _ _ assms(6) given assms(7)]) simp_all
  have active: "?good" if "sent s3 \<noteq> sent s2 \<or> (\<exists>res. q = Inr res)"
    using adapter_auth_active [OF assms(1,9) that] M(1,3) assms(3,6) accept R by (auto simp: mailpit_verifier_def)
  have good: "\<exists>n. (case auth_finish E P ?r (s2\<lparr>tick := n\<rparr>) of
                 (Inl e, s4) \<Rightarrow> q = Inl (providerError (ProviderErr e)) \<and> s3 = s4
               | (Inr out, s4) \<Rightarrow> q = Inr \<lparr>EntityID = ar_Subject out, AttributeToken = ar_Context out\<rparr> \<and> s3 = s4)"
    if "\<And>n. call_ctx E n = None" "?good"
    using Authenticate_accepted [OF valid that(1), of "mailpit_verifier E c" v' s2 v3 n] accept that R A assms(9)
    by (intro exI [of _ "Suc n"]) (auto simp: mailpit_verifier_def split: prod.splits sum.splits)
  have bad: "q = Inl AuthenticationFailedError \<and> sent s3 = sent s2" if "\<And>n. call_ctx E n = None" "\<not> ?good"
    using Authenticate_refuses [OF valid that(1), of "mailpit_verifier E c" v' s2 ErrChallengeFailed v3 n]
      mailpit_Verify_refuses [of E "call_ctx E" ?r v' ?j] accept that R A assms(9)
    by (auto simp: mailpit_verifier_def providerError_def)
  show ?thesis
    unfolding Let_def
    by (intro exI [of _ uid] exI [of _ b] exI [of _ code] exI [of _ sa] exI [of _ i] conjI M(3,4,7-11))
      (use active good bad in blast)+
qed

theorem mail_login_witness:
  "\<exists>v' s' code. AdapterSendOTP ex_mail_adapter None [(''username'', AnyString ''7'')] (Some ex_metadata)
       (newMailpitVerifier, ex_state) = (Inr ''tx'', (v', s')) \<and> outbox v' = smtp_script ex_mailpit code \<and> length code = 6"
proof -
  obtain v' s' where S: "AdapterSendOTP ex_mail_adapter None [(''username'', AnyString ''7'')] (Some ex_metadata)
       (newMailpitVerifier, ex_state) = (Inr ''tx'', (v', s'))"
    using ex_adapter_sent by blast
  obtain q v2 s3 where A: "AdapterAuthenticate ex_mail_adapter [(''username'', AnyString ''7'')] [(''otp'', AnyString ''42'')]
      (Some ex_metadata) (v', s') = (q, (v2, s3))"
    by (metis surj_pair)
  have "\<exists>code. outbox v' = outbox newMailpitVerifier @ smtp_script ex_mailpit code \<and> length code = 6"
    using mail_login [OF ex_mail_adapter_identity S _ _ _ _ _ text_eval(3) A] ex_metadata_transaction
    by (auto simp: string_value_def)
  with S show ?thesis by (auto simp: newMailpitVerifier_def)
qed

text \<open>C33. For a request with a user name, exactly one credential and a client the host knows, the
  adapter authenticates exactly as the provider does for the bound request: the same subject
  and context on success, and on failure the host's error for the provider's, so a refused
  challenge, subject or context is an authentication failure and all else is internal or
  invalid.\<close>

theorem adapter_is_the_provider:
  assumes "identity p = core_identity E P cv" and "binding p m True = Inr b"
    and "string_value identifiers ''username'' = Some identifier" and "identifier \<noteq> []"
    and "string_value credentials ''otp'' = Some challenge" and "challenge \<noteq> []"
    and "length credentials = 1"
  shows "AdapterAuthenticate p identifiers credentials (Some m) (v, s) =
    (case Authenticate E P cv \<lparr>cr_Identifier = identifier, cr_IdentifierType = identifierType p,
        cr_Challenge = challenge, cr_Binding = b\<rparr> v s of
       (Inl e, i') \<Rightarrow> (Inl (if e \<in> {ErrChallengeFailed, ErrSubjectDenied, ErrContextInvalid, ErrContextExpired}
          then AuthenticationFailedError else if e = ErrInvalidRequest then InvalidRequestError
          else InternalServerError), i')
     | (Inr out, i') \<Rightarrow> (Inr \<lparr>EntityID = ar_Subject out, AttributeToken = ar_Context out\<rparr>, i'))"
proof -
  let ?r = "\<lparr>cr_Identifier = identifier, cr_IdentifierType = identifierType p,
        cr_Challenge = challenge, cr_Binding = b\<rparr>"
  obtain q i' where A: "Authenticate E P cv ?r v s = (q, i')" by (cases "Authenticate E P cv ?r v s")
  have err: "providerError (ProviderErr e) = (if e \<in> {ErrChallengeFailed, ErrSubjectDenied, ErrContextInvalid, ErrContextExpired}
          then AuthenticationFailedError else if e = ErrInvalidRequest then InvalidRequestError
          else InternalServerError)" for e
    by (cases e) (simp_all add: providerError_def)
  have c: "core_Authenticate E P cv ?r (v, s) = (map_sum ProviderErr id q, i')"
    by (cases q) (simp_all add: core_Authenticate_def lift_error_def A)
  have "case core_Authenticate E P cv ?r (v, s) of
       (Inl e, i') \<Rightarrow> AdapterAuthenticate p identifiers credentials (Some m) (v, s) = (Inl (providerError e), i')
     | (Inr out, i') \<Rightarrow> AdapterAuthenticate p identifiers credentials (Some m) (v, s)
         = (Inr \<lparr>EntityID = ar_Subject out, AttributeToken = ar_Context out\<rparr>, i')"
    using assms unfolding core_identity_def by (intro core.adapter_auth_error) simp_all
  then show ?thesis by (cases q) (simp_all add: c A err)
qed

theorem adapter_is_the_provider_witness:
  "fst (AdapterAuthenticate ex_adapter [(''username'', AnyString ''7'')] [(''otp'', AnyString ''42'')]
      (Some ex_metadata) ((), ex_state)) = Inr \<lparr>EntityID = ar_Subject ex_result, AttributeToken = ar_Context ex_result\<rparr>"
proof -
  have r: "\<lparr>cr_Identifier = ''7'', cr_IdentifierType = identifierType ex_adapter, cr_Challenge = ''42'', cr_Binding = ex_binding\<rparr>
      = ex_request" by (simp add: ex_request_def ex_adapter_def)
  show ?thesis
    using adapter_is_the_provider [OF ex_adapter_identity ex_adapter_binding,
        of "[(''username'', AnyString ''7'')]" "''7''" "[(''otp'', AnyString ''42'')]" "''42''" "()" ex_state]
    by (simp add: r ex_authenticated string_value_def)
qed

text \<open>C34. The adapter binds a request only to the one client id it carries, as the host's registry
  resolves it, and to its one transaction: an unknown or mismatched client, an absent relying
  party, or a repeated or empty transaction never yields a binding, nor does a missing one where
  a transaction is required (for \<open>SendOTP\<close>, which makes one up, it is not).\<close>

theorem adapter_binding:
  assumes "binding p m need = Inr b"
  shows "header m ''initiator_query_client_id'' = [ClientID b] \<and> ClientID b \<noteq> [] \<and> RelyingPartyID b \<noteq> []
    \<and> (\<exists>getClient. clients p = Some getClient \<and>
         getClient (ClientID b) = Inr \<lparr>ResponseClientID = ClientID b, RpID = RelyingPartyID b\<rparr>)
    \<and> (header m transactionKey = [TransactionID b] \<and> TransactionID b \<noteq> []
       \<or> header m transactionKey = [] \<and> TransactionID b = [] \<and> \<not> need)"
  using binding_Inr [OF assms] by metis

theorem adapter_binding_witness: "header ex_metadata ''initiator_query_client_id'' = [''cl'']"
  using adapter_binding [OF ex_adapter_binding] by (simp add: ex_binding_def)

text \<open>C35. Attributes leave the adapter only for a token it was given, a present request without
  verifications or constraints, and a bound transaction; what leaves is exactly what the
  provider releases for the requested names, so only names that were requested.\<close>

theorem adapter_attributes:
  assumes "identity p = core_identity E P cv"
    and "AdapterGetAttributes p tok requested meta (v, s) = (Inr vals, (v', s'))"
  shows "\<exists>r m state b out. requested = Some r \<and> meta = Some m \<and> Verifications r = [] \<and> tok = AnyMap state
    \<and> \<not> list_ex snd (Attributes r) \<and> binding p m True = Inr b
    \<and> GetAttributes E P state b (Some (sort (map fst (Attributes r)))) s = (Inr out, s') \<and> v' = v
    \<and> map_of vals = map_of out \<and> dom (map_of vals) \<subseteq> fst ` set (Attributes r)"
proof -
  obtain r m state b out where R: "requested = Some r" "meta = Some m" "Verifications r = []" "tok = AnyMap state"
    "\<not> list_ex snd (Attributes r)" "binding p m True = Inr b" "map_of vals = map_of out"
    and C: "core_GetAttributes E P state b (Some (sort (map fst (Attributes r)))) (v, s) = (Inr out, (v', s'))"
    using core.adapter_attrs [OF _ assms(2), of E P cv] assms(1) unfolding core_identity_def by blast
  have G: "GetAttributes E P state b (Some (sort (map fst (Attributes r)))) s = (Inr out, s')" "v' = v"
    using C by (auto simp: core_GetAttributes_def split: prod.splits dest: lift_error_Inr)
  have "fst ` set out \<subseteq> fst ` set (Attributes r)"
    using core.attrs_names [OF C] by simp
  then have "dom (map_of vals) \<subseteq> fst ` set (Attributes r)"
    using R(7) by (metis dom_map_of_conv_image_fst)
  with R G show ?thesis by blast
qed

theorem adapter_attributes_witness:
  "\<exists>vals. AdapterGetAttributes ex_adapter (AnyMap (GoMap (context_map ex_context)))
      (Some \<lparr>Verifications = [], Attributes = [(''sub'', False)]\<rparr>) (Some ex_metadata) ((), ex_state)
        = (Inr vals, ((), ex_state\<lparr>tick := 1\<rparr>)) \<and> dom (map_of vals) \<subseteq> {''sub''}"
proof -
  let ?r = "\<lparr>Verifications = [], Attributes = [(''sub'', False)]\<rparr> :: RequestedAttributes"
  have A: "AdapterGetAttributes ex_adapter (AnyMap (GoMap (context_map ex_context))) (Some ?r) (Some ex_metadata) ((), ex_state)
      = (Inr [(''sub'', JStr (psut ex_provider ex_context))], ((), ex_state\<lparr>tick := 1\<rparr>))"
    by (simp add: AdapterGetAttributes_def ex_adapter_binding ex_adapter_identity core_identity_def core_GetAttributes_def
        ex_attributes lift_error_def)
  from adapter_attributes [OF ex_adapter_identity A] show ?thesis using A by auto
qed

text \<open>C36. The consent decorator only wraps the provider named breg: there it always asks for a fresh
  decision, whatever the caller asks, and reports a refused essential attribute under the code
  the host recognises, keeping the record and the details of every error; any other consent
  provider is left as it is.\<close>

theorem consent_is_fresh:
  "ResolveConsent (WithFreshConsent ''breg'' c) args flag = ResolveConsent c args True
    \<and> fst (RecordConsent (WithFreshConsent ''breg'' c) d) = fst (RecordConsent c d)
    \<and> snd (RecordConsent (WithFreshConsent ''breg'' c) d)
        = map_option (\<lambda>e. if Code e = ''essential_consent_denied'' then e\<lparr>Code := ''AUTH-CES-1006''\<rparr> else e)
            (snd (RecordConsent c d))
    \<and> (name \<noteq> ''breg'' \<longrightarrow> WithFreshConsent name c = c)"
  using fresh_consent_reprompts [of c args flag]
  by (auto simp: WithFreshConsent_def freshConsentProvider_def fresh_RecordConsent_def split: prod.splits option.splits)

theorem consent_is_fresh_witness: "WithFreshConsent ''other'' ex_consent = ex_consent"
  using consent_is_fresh [of ex_consent "()" False "()" "''other''"] by simp

text \<open>C37. A registry answer marshalled by a JSON encoder is read back as the record it holds: the
  members of \<open>data.domainData\<close>, invalid UTF-8 replaced, later members winning, numbers as
  their literal text. Whatever other members stand beside \<open>data\<close>, and beside \<open>domainData\<close> in it,
  is ignored, as long as their names differ in more than case; the answer nests at most 10000
  deep, the limit of the decoder, and its number literals are JSON numbers.\<close>

theorem record_read_back:
  assumes "\<forall>m \<in> set (before @ after). \<not> equal_fold ''data'' (sanitize (fst m))"
    and "\<forall>m \<in> set (pre @ post). \<not> equal_fold ''domainData'' (sanitize (fst m))"
    and "answer = JObj (before @ (''data'', JObj (pre @ (''domainData'', JObj ms) # post)) # after)"
    and "numbers_ok answer" and "nesting answer \<le> max_nesting"
  shows "decodeJSON lookup_member None (marshal answer)
    = Some (Some (canon_members (map (\<lambda>m. (sanitize (fst m), any_of (clean (snd m)))) ms)))"
proof -
  let ?c = "map (\<lambda>m. (sanitize (fst m), clean (snd m)))"
  have "clean answer = JObj (?c before @ (''data'', JObj (?c pre @ (''domainData'', JObj (?c ms)) # ?c post)) # ?c after)"
    by (simp add: assms(3) sanitize_ascii)
  moreover have "\<forall>m \<in> set (?c before @ ?c after). \<not> equal_fold ''data'' (fst m)"
    "\<forall>m \<in> set (?c pre @ ?c post). \<not> equal_fold ''domainData'' (fst m)"
    using assms(1,2) by (simp_all add: ball_Un)
  ultimately have "decode_struct lookup_member (clean answer) None
      = Some (Some (canon_members (map (\<lambda>m. (fst m, any_of (snd m))) (?c ms))))"
    by (simp only: decode_envelope)
  then show ?thesis
    by (simp add: decodeJSON_def parse_doc_marshal [OF assms(4,5)] comp_def del: marshal.simps)
qed

theorem record_read_back_witness:
  "decodeJSON lookup_member None (marshal (JObj [(''data'', JObj [(''recordIdentifier'', JStr ''hidden''),
      (''domainData'', JObj ex_record)]), (''meta'', JObj [(''email'', JStr ''hidden'')])]))
    = Some (Some (canon_members ex_record))"
proof -
  have other: "\<not> equal_fold ''data'' ''meta''" "\<not> equal_fold ''domainData'' ''recordIdentifier''"
    by (simp_all add: equal_fold_def fold_rune_def)
  have utf8: "sanitize ''meta'' = ''meta''" "sanitize ''recordIdentifier'' = ''recordIdentifier''"
    by (simp_all add: sanitize_ascii)
  have "decodeJSON lookup_member None (marshal (JObj ([] @ (''data'', JObj ([(''recordIdentifier'', JStr ''hidden'')]
      @ (''domainData'', JObj ex_record) # [])) # [(''meta'', JObj [(''email'', JStr ''hidden'')])])))
    = Some (Some (canon_members (map (\<lambda>m. (sanitize (fst m), any_of (clean (snd m)))) ex_record)))"
    by (rule record_read_back [OF _ _ refl])
      (simp_all add: other utf8 ex_record_def max_nesting_def del: marshal.simps)
  then show ?thesis by (simp add: ex_record_def sanitize_ascii del: marshal.simps)
qed

text \<open>C38. An adapter that \<open>Init\<close> made was configured by the one file the environment names, holds a
  provider constructed from exactly that configuration with one of the two demo verifiers, and
  never has settings its provider would refuse: its identifier type is the provider's, so any
  text of a good length is a valid subject, and its channels are known ones and at least one. It
  binds requests only to clients as the host's service returns them.\<close>

theorem adapter_wiring:
  assumes "Init y cl fs appends getenv getClient service = Inr (a, obs)"
  shows "\<exists>P v h. identity a = (P, v, h)
    \<and> LoadConfig y fs (getenv ''REGISTRY_ESIGNET_CONFIG_FILE'') = Inr (config P)
    \<and> New cl fs appends False (config P) = Inr (P, v, h) \<and> validate (config P) = Inr ()
    \<and> ((\<exists>otp. v = StaticVerifier otp \<and> otp \<noteq> [] \<and> StaticOTPEnabled (Demo (config P)))
       \<or> (\<exists>t. v = MailpitVerifier (Mailpit (Demo (config P))) t \<and> mp_Enabled (Mailpit (Demo (config P)))))
    \<and> (\<forall>uid. validSubject P uid (identifierType a) \<longleftrightarrow> validText uid)
    \<and> channels a \<noteq> [] \<and> set (channels a) \<subseteq> {''email'', ''phone''}
    \<and> (\<forall>m need b. binding a m need = Inr b \<longrightarrow>
         getClient service (ClientID b) = Inr \<lparr>ResponseClientID = ClientID b, RpID = RelyingPartyID b\<rparr>)"
proof -
  obtain P v h where I: "identity a = (P, v, h)"
    "LoadConfig y fs (getenv ''REGISTRY_ESIGNET_CONFIG_FILE'') = Inr (config P)"
    "New cl fs appends False (config P) = Inr (P, v, h)"
    "identifierType a = SubjectIDType (config P)" "channels a = SupportedOTPChannels P"
    "clients a = Some (getClient service)"
    by (rule Init_ok [OF assms])
  note C = choose_verifier_policy [OF New_ok(8) [OF I(3)]]
  have "(\<exists>otp. v = StaticVerifier otp \<and> otp \<noteq> [] \<and> StaticOTPEnabled (Demo (config P)))
       \<or> (\<exists>t. v = MailpitVerifier (Mailpit (Demo (config P))) t \<and> mp_Enabled (Mailpit (Demo (config P))))"
    using C by (cases v) simp_all
  moreover have "validSubject P uid (identifierType a) \<longleftrightarrow> validText uid" for uid
    by (simp add: validSubject_def I(4))
  moreover have "channels a \<noteq> []" "set (channels a) \<subseteq> {''email'', ''phone''}"
    by (simp_all add: I(5) SupportedOTPChannels_def)
  moreover have "getClient service (ClientID b) = Inr \<lparr>ResponseClientID = ClientID b, RpID = RelyingPartyID b\<rparr>"
    if "binding a m need = Inr b" for m need b
    using binding_Inr [OF that] I(6) by auto
  ultimately show ?thesis using I(1-3) New_ok(2) [OF I(3)] by blast
qed

theorem adapter_wiring_witness:
  "\<exists>a obs. Init ex_yaml ex_crypto ex_files (\<lambda>_. True) (\<lambda>_. ''c'') ex_get_client (Some ()) = Inr (a, obs)
     \<and> fst (snd (identity a)) = StaticVerifier ''42'' \<and> channels a \<noteq> []"
proof -
  obtain a where I: "Init ex_yaml ex_crypto ex_files (\<lambda>_. True) (\<lambda>_. ''c'') ex_get_client (Some ()) = Inr (a, NoopAuditor)"
    and v: "fst (snd (identity a)) = StaticVerifier ''42''" using ex_init by blast
  have "channels a \<noteq> []" using adapter_wiring [OF I] by blast
  with I v show ?thesis by blast
qed

text \<open>C39. The extractor touches the file system only after every entry was read and the checksum of
  all names and contents equals the pinned one; everything it then touches lies at or below
  the destination, or is the directory of such a path, whatever the entries are named.\<close>

theorem archive_checked_before_extraction:
  assumes "extract_archive os (Some src) pre expected destination = (r, log)" and "log \<noteq> []"
  shows "(\<exists>manifest. verify_files pre [] (sort_key Name src) = Inr manifest \<and> h1 manifest = expected)
    \<and> (\<forall>x \<in> set log. op_inside destination x)"
  using assms(1)
proof (cases rule: extract_archive_cases)
  case (extracted manifest)
  obtain k where k: "log = take k (concat (map (file_ops pre destination) (sort_key Name src)))"
    using extract_files_log(1) [OF extracted(3)] by auto
  have "op_inside destination x" if "x \<in> set log" for x
  proof -
    have "x \<in> set (concat (map (file_ops pre destination) (sort_key Name src)))"
      using that k in_set_takeD by metis
    then obtain f where "f \<in> set (sort_key Name src)" "x \<in> set (file_ops pre destination f)" by auto
    with verify_files_ok(1) [OF extracted(1)] show ?thesis by (intro file_ops_inside) auto
  qed
  with extracted show ?thesis by blast
qed (use assms(2) in simp)

theorem archive_checked_before_extraction_witness:
  "\<exists>manifest. verify_files ''m'' [] (sort_key Name [ex_file]) = Inr manifest \<and> h1 manifest = ex_h1"
  using archive_checked_before_extraction [OF ex_extracted] by simp

text \<open>C40. A successful extraction carries out, for every entry in the order of the names, its
  directory and file operations with the bytes the entry delivered; two archives with the same
  hashed text have the same names and the same SHA-256 digest for each, so the pinned checksum
  pins the names and contents. (An entry gives the same content both times it is opened, that
  is, the archive does not change while it is extracted.)\<close>

theorem archive_contents_pinned:
  assumes "extract_archive os (Some src) pre expected destination = (None, log)"
    and "\<forall>f \<in> set src. SecondOpen f = FirstOpen f"
  shows "\<exists>es. log = concat (map (file_ops pre destination) (sort_key Name src))
    \<and> map fst es = map Name (sort_key Name src)
    \<and> (\<forall>f \<in> set src. \<exists>content. (Name f, content) \<in> set es \<and> SecondOpen f = Stream content False False)
    \<and> h1 (manifest_text es) = expected
    \<and> (\<forall>es'. manifest_text es' = manifest_text es \<and> (\<forall>(name, content) \<in> set es'. CHR 0x0A \<notin> set name)
         \<longrightarrow> map (\<lambda>(name, content). (name, sha256 content)) es' = map (\<lambda>(name, content). (name, sha256 content)) es)"
  using assms(1)
proof (cases rule: extract_archive_cases)
  case (extracted manifest)
  let ?fs = "sort_key Name src"
  define content where "content f = (case FirstOpen (f :: zip_file) of Stream c _ _ \<Rightarrow> c | OpenFails \<Rightarrow> [])" for f
  let ?es = "map (\<lambda>f :: zip_file. (Name f, content f)) ?fs"
  note V = verify_files_ok [OF extracted(1)]
  have opened: "FirstOpen f = Stream (content f) False False" if "f \<in> set ?fs" for f
    using V(1) that by (auto simp: content_def)
  have m: "manifest = manifest_text ?es"
    unfolding V(2) manifest_text_def
    by (rule arg_cong [of _ _ concat]) (use opened in \<open>auto simp: o_def\<close>)
  have names: "\<forall>(name, c) \<in> set ?es. CHR 0x0A \<notin> set name" using V(1) by auto
  have log: "log = concat (map (file_ops pre destination) ?fs)"
    using extract_files_log(2) [OF extracted(3)] by simp
  show ?thesis
    using log extracted(2) m names opened assms(2) manifest_text_inj [of _ ?es]
    by (intro exI [of _ ?es]) (auto simp: o_def)
qed simp

theorem archive_contents_pinned_witness:
  "\<exists>es. map fst es = [''m/a''] \<and> h1 (manifest_text es) = ex_h1"
  using archive_contents_pinned [OF ex_extracted(1)] by (auto simp: ex_file_def)

end
